theory Spec2Isabelle
  imports Complex_Main "HOL-Library.DAList" "HOL-Library.Char_ord" "HOL-Library.List_Lexorder"
    "HOL-Library.Multiset"
begin

section \<open>JavaScript values\<close>

text \<open>
  The numbers of \<^verbatim>\<open>background.js\<close> are IEEE doubles. They are idealised here as
  real numbers together with the special values \<^verbatim>\<open>NaN\<close>, \<^verbatim>\<open>Infinity\<close> and
  \<^verbatim>\<open>-Infinity\<close>; \<^verbatim>\<open>undefined\<close> (a missing property) is a value of the same type,
  since every numeric property of a record may be missing. The operations of this
  section are exact: rounding, overflow and the sign of zero are not represented. The
  rounding of a result to a double is defined further down and is applied where the
  exact value of a result is at stake (the progress of a download).
\<close>

datatype jsval = Undefined | NaN | Num real | Infinity | NegInfinity

text \<open>ToBoolean: \<^verbatim>\<open>undefined\<close>, \<^verbatim>\<open>NaN\<close> and \<^verbatim>\<open>0\<close> are falsy.\<close>

fun truthy :: "jsval \<Rightarrow> bool" where
  "truthy Undefined = False"
| "truthy NaN = False"
| "truthy (Num x) = (x \<noteq> 0)"
| "truthy Infinity = True"
| "truthy NegInfinity = True"

text \<open>\<^verbatim>\<open>a || b\<close> and \<^verbatim>\<open>a && b\<close>.\<close>

definition js_or :: "jsval \<Rightarrow> jsval \<Rightarrow> jsval" where
  "js_or a b = (if truthy a then a else b)"

definition js_and :: "jsval \<Rightarrow> jsval \<Rightarrow> jsval" where
  "js_and a b = (if truthy a then b else a)"

fun js_neg :: "jsval \<Rightarrow> jsval" where
  "js_neg (Num x) = Num (- x)"
| "js_neg Infinity = NegInfinity"
| "js_neg NegInfinity = Infinity"
| "js_neg NaN = NaN"
| "js_neg Undefined = NaN"

fun js_add :: "jsval \<Rightarrow> jsval \<Rightarrow> jsval" where
  "js_add (Num x) (Num y) = Num (x + y)"
| "js_add (Num x) Infinity = Infinity"
| "js_add (Num x) NegInfinity = NegInfinity"
| "js_add Infinity (Num y) = Infinity"
| "js_add Infinity Infinity = Infinity"
| "js_add NegInfinity (Num y) = NegInfinity"
| "js_add NegInfinity NegInfinity = NegInfinity"
| "js_add _ _ = NaN"

definition js_sub :: "jsval \<Rightarrow> jsval \<Rightarrow> jsval" where
  "js_sub a b = js_add a (js_neg b)"

text \<open>The sign of a value (0 for \<^verbatim>\<open>NaN\<close>), and the infinity of a given sign.\<close>

fun js_sign :: "jsval \<Rightarrow> real" where
  "js_sign (Num x) = sgn x"
| "js_sign Infinity = 1"
| "js_sign NegInfinity = - 1"
| "js_sign NaN = 0"
| "js_sign Undefined = 0"

definition js_inf :: "real \<Rightarrow> jsval" where
  "js_inf s = (if 0 < s then Infinity else if s < 0 then NegInfinity else NaN)"

fun is_nan :: "jsval \<Rightarrow> bool" where
  "is_nan NaN = True"
| "is_nan Undefined = True"
| "is_nan _ = False"

fun js_mul :: "jsval \<Rightarrow> jsval \<Rightarrow> jsval" where
  "js_mul (Num x) (Num y) = Num (x * y)"
| "js_mul a b = (if is_nan a \<or> is_nan b then NaN else js_inf (js_sign a * js_sign b))"

text \<open>Division; a zero divisor is taken to be \<^verbatim>\<open>+0\<close>.\<close>

fun js_div :: "jsval \<Rightarrow> jsval \<Rightarrow> jsval" where
  "js_div (Num x) (Num y) = (if y = 0 then js_inf (sgn x) else Num (x / y))"
| "js_div (Num x) Infinity = Num 0"
| "js_div (Num x) NegInfinity = Num 0"
| "js_div Infinity (Num y) = (if 0 \<le> y then Infinity else NegInfinity)"
| "js_div NegInfinity (Num y) = (if 0 \<le> y then NegInfinity else Infinity)"
| "js_div _ _ = NaN"

text \<open>\<^verbatim>\<open>a < b\<close> and \<^verbatim>\<open>a > b\<close>: false as soon as one side is \<^verbatim>\<open>NaN\<close>.\<close>

fun js_lt :: "jsval \<Rightarrow> jsval \<Rightarrow> bool" where
  "js_lt (Num x) (Num y) = (x < y)"
| "js_lt (Num x) Infinity = True"
| "js_lt NegInfinity (Num y) = True"
| "js_lt NegInfinity Infinity = True"
| "js_lt _ _ = False"

definition js_gt :: "jsval \<Rightarrow> jsval \<Rightarrow> bool" where
  "js_gt a b = js_lt b a"

text \<open>\<^verbatim>\<open>Math.max(a, b)\<close> and \<^verbatim>\<open>Math.min(a, b)\<close>: \<^verbatim>\<open>NaN\<close> if either argument is.\<close>

definition Math_max :: "jsval \<Rightarrow> jsval \<Rightarrow> jsval" where
  "Math_max a b = (if is_nan a \<or> is_nan b then NaN else if js_lt a b then b else a)"

definition Math_min :: "jsval \<Rightarrow> jsval \<Rightarrow> jsval" where
  "Math_min a b = (if is_nan a \<or> is_nan b then NaN else if js_lt b a then b else a)"

section \<open>Records and stores\<close>

text \<open>
  The tracked records are plain objects whose properties may be missing: a missing
  numeric property is \<^const>\<open>Undefined\<close>, a missing string property is \<^const>\<open>None\<close>.
  A property that holds \<^verbatim>\<open>undefined\<close> is not distinguished from a missing one.
\<close>

record tab_stats =
  t_id :: "int option"
  t_title :: "string option"
  t_url :: "string option"
  t_createdAt :: jsval
  t_memoryUsage :: jsval
  t_cpuUsage :: jsval
  t_lastUpdated :: jsval
  t_lastSeen :: jsval

record download_stats =
  d_id :: "int option"
  d_filename :: "string option"
  d_url :: "string option"
  d_state :: "string option"
  d_bytesReceived :: jsval
  d_totalBytes :: jsval
  d_createdAt :: jsval
  d_lastUpdated :: jsval

text \<open>The object literal \<^verbatim>\<open>{}\<close>.\<close>

definition empty_tab_stats :: tab_stats where
  "empty_tab_stats = \<lparr>t_id = None, t_title = None, t_url = None, t_createdAt = Undefined,
     t_memoryUsage = Undefined, t_cpuUsage = Undefined, t_lastUpdated = Undefined,
     t_lastSeen = Undefined\<rparr>"

definition empty_download_stats :: download_stats where
  "empty_download_stats = \<lparr>d_id = None, d_filename = None, d_url = None, d_state = None,
     d_bytesReceived = Undefined, d_totalBytes = Undefined, d_createdAt = Undefined,
     d_lastUpdated = Undefined\<rparr>"

text \<open>
  What the host reports for a tab and for a download (the properties the code reads).
  The host always supplies the id and, for a download, the start time, an ISO 8601
  string.
\<close>

record tab =
  tab_id :: int
  tab_title :: "string option"
  tab_url :: "string option"

record download_item =
  di_id :: int
  di_filename :: "string option"
  di_url :: "string option"
  di_state :: "string option"
  di_bytesReceived :: jsval
  di_totalBytes :: jsval
  di_startTime :: string

text \<open>
  A download delta carries, for each property that changed, an object with the previous
  and the current value; a property that did not change is missing from the delta.
\<close>

record string_delta =
  sd_previous :: "string option"
  sd_current :: "string option"

record double_delta =
  nd_previous :: jsval
  nd_current :: jsval

record download_delta =
  dd_id :: int
  dd_state :: "string_delta option"
  dd_bytesReceived :: "double_delta option"
  dd_totalBytes :: "double_delta option"

text \<open>
  A JavaScript \<^verbatim>\<open>Map\<close> is an association list with distinct keys: \<^const>\<open>DAList.update\<close>
  replaces the value of a present key in place and appends a new key, as \<^verbatim>\<open>set\<close> does,
  \<^const>\<open>DAList.delete\<close> is \<^verbatim>\<open>delete\<close>, \<^const>\<open>DAList.lookup\<close> is \<^verbatim>\<open>get\<close>, and
  \<^const>\<open>DAList.impl_of\<close> lists the entries in insertion order.

  The state of \<^verbatim>\<open>BackgroundTaskManager\<close> is its two maps, together with the two keys of
  \<^verbatim>\<open>chrome.storage.local\<close> that it writes (\<^const>\<open>None\<close>: never written).
\<close>

record manager =
  tabStats :: "(int, tab_stats) alist"
  downloadStats :: "(int, download_stats) alist"
  stored_tabStats :: "(int \<times> tab_stats) list option"
  stored_downloadStats :: "(int \<times> download_stats) list option"

definition new_manager :: manager where
  "new_manager = \<lparr>tabStats = DAList.empty, downloadStats = DAList.empty,
     stored_tabStats = None, stored_downloadStats = None\<rparr>"

text \<open>\<^verbatim>\<open>new Map(pairs)\<close>: the pairs are set from left to right.\<close>

definition new_Map :: "('k \<times> 'v) list \<Rightarrow> ('k, 'v) alist" where
  "new_Map ps = fold (\<lambda>(k, v) m. DAList.update k v m) ps DAList.empty"

section \<open>Persistence\<close>

text \<open>
  \<^verbatim>\<open>updateStoredStats\<close> and \<^verbatim>\<open>updateStoredDownloadStats\<close> write the entries of a map
  under its key. The flag says whether \<^verbatim>\<open>chrome.storage.local.set\<close> resolved; a
  rejection is caught and logged.
\<close>

definition updateStoredStats :: "bool \<Rightarrow> manager \<Rightarrow> manager" where
  "updateStoredStats ok s =
     (if ok then s\<lparr>stored_tabStats := Some (DAList.impl_of (tabStats s))\<rparr> else s)"

definition updateStoredDownloadStats :: "bool \<Rightarrow> manager \<Rightarrow> manager" where
  "updateStoredDownloadStats ok s =
     (if ok then s\<lparr>stored_downloadStats := Some (DAList.impl_of (downloadStats s))\<rparr> else s)"

section \<open>Event handlers\<close>

text \<open>Each handler takes the value of \<^verbatim>\<open>Date.now()\<close> where it reads the clock.\<close>

definition onTabCreated :: "real \<Rightarrow> bool \<Rightarrow> tab \<Rightarrow> manager \<Rightarrow> manager" where
  "onTabCreated now ok tb s =
     updateStoredStats ok
       (s\<lparr>tabStats := DAList.update (tab_id tb)
            \<lparr>t_id = Some (tab_id tb), t_title = tab_title tb, t_url = tab_url tb,
             t_createdAt = Num now, t_memoryUsage = Num 0, t_cpuUsage = Num 0,
             t_lastUpdated = Undefined, t_lastSeen = Undefined\<rparr>
            (tabStats s)\<rparr>)"

definition onTabRemoved :: "bool \<Rightarrow> int \<Rightarrow> manager \<Rightarrow> manager" where
  "onTabRemoved ok tabId s =
     updateStoredStats ok (s\<lparr>tabStats := DAList.delete tabId (tabStats s)\<rparr>)"

text \<open>\<^verbatim>\<open>this.tabStats.get(id) || {}\<close> and \<^verbatim>\<open>this.downloadStats.get(id) || {}\<close>.\<close>

definition tab_or_empty :: "manager \<Rightarrow> int \<Rightarrow> tab_stats" where
  "tab_or_empty s tabId =
     (case DAList.lookup (tabStats s) tabId of Some r \<Rightarrow> r | None \<Rightarrow> empty_tab_stats)"

definition download_or_empty :: "manager \<Rightarrow> int \<Rightarrow> download_stats" where
  "download_or_empty s downloadId =
     (case DAList.lookup (downloadStats s) downloadId of
        Some r \<Rightarrow> r | None \<Rightarrow> empty_download_stats)"

definition onTabUpdated :: "real \<Rightarrow> bool \<Rightarrow> int \<Rightarrow> string option \<Rightarrow> tab \<Rightarrow> manager \<Rightarrow> manager" where
  "onTabUpdated now ok tabId status tb s =
     (if status = Some ''complete'' then
        let existingStats = tab_or_empty s tabId
        in updateStoredStats ok
             (s\<lparr>tabStats := DAList.update tabId
                  (existingStats\<lparr>t_id := Some tabId, t_title := tab_title tb,
                     t_url := tab_url tb, t_lastUpdated := Num now\<rparr>)
                  (tabStats s)\<rparr>)
      else s)"

definition onDownloadCreated :: "real \<Rightarrow> bool \<Rightarrow> download_item \<Rightarrow> manager \<Rightarrow> manager" where
  "onDownloadCreated now ok item s =
     updateStoredDownloadStats ok
       (s\<lparr>downloadStats := DAList.update (di_id item)
            \<lparr>d_id = Some (di_id item), d_filename = di_filename item, d_url = di_url item,
             d_state = di_state item, d_bytesReceived = di_bytesReceived item,
             d_totalBytes = di_totalBytes item, d_createdAt = Num now,
             d_lastUpdated = Undefined\<rparr>
            (downloadStats s)\<rparr>)"

text \<open>
  \<^verbatim>\<open>onDownloadChanged\<close> mutates the tracked object (or a fresh \<^verbatim>\<open>{}\<close>) property by
  property. A delta property, when present, is an object and therefore truthy.
\<close>

definition apply_delta :: "real \<Rightarrow> download_delta \<Rightarrow> download_stats \<Rightarrow> download_stats" where
  "apply_delta now delta existingStats =
     (let r1 = (case dd_state delta of
                  Some c \<Rightarrow> existingStats\<lparr>d_state := sd_current c\<rparr> | None \<Rightarrow> existingStats);
          r2 = (case dd_bytesReceived delta of
                  Some c \<Rightarrow> r1\<lparr>d_bytesReceived := nd_current c\<rparr> | None \<Rightarrow> r1);
          r3 = (case dd_totalBytes delta of
                  Some c \<Rightarrow> r2\<lparr>d_totalBytes := nd_current c\<rparr> | None \<Rightarrow> r2)
      in r3\<lparr>d_lastUpdated := Num now\<rparr>)"

definition onDownloadChanged :: "real \<Rightarrow> bool \<Rightarrow> download_delta \<Rightarrow> manager \<Rightarrow> manager" where
  "onDownloadChanged now ok delta s =
     (let existingStats = download_or_empty s (dd_id delta)
      in updateStoredDownloadStats ok
           (s\<lparr>downloadStats :=
                DAList.update (dd_id delta) (apply_delta now delta existingStats)
                  (downloadStats s)\<rparr>))"

section \<open>The monitoring loop\<close>

text \<open>
  \<^verbatim>\<open>cleanupOldStats\<close> walks the entries of each map and deletes the entry it is
  visiting when its age exceeds 24 hours. The clock is read once.
\<close>

definition maxAge :: real where
  "maxAge = 24 * 60 * 60 * 1000"

definition tab_expired :: "real \<Rightarrow> tab_stats \<Rightarrow> bool" where
  "tab_expired now stats =
     js_gt (js_sub (Num now) (js_or (t_lastSeen stats) (t_createdAt stats))) (Num maxAge)"

definition download_expired :: "real \<Rightarrow> download_stats \<Rightarrow> bool" where
  "download_expired now stats =
     js_gt (js_sub (Num now) (js_or (d_lastUpdated stats) (d_createdAt stats))) (Num maxAge)"

definition delete_where :: "('v \<Rightarrow> bool) \<Rightarrow> ('k, 'v) alist \<Rightarrow> ('k, 'v) alist" where
  "delete_where old m =
     fold (\<lambda>(k, stats) m'. if old stats then DAList.delete k m' else m') (DAList.impl_of m) m"

definition cleanupOldStats :: "real \<Rightarrow> manager \<Rightarrow> manager" where
  "cleanupOldStats now s =
     s\<lparr>tabStats := delete_where (tab_expired now) (tabStats s),
       downloadStats := delete_where (download_expired now) (downloadStats s)\<rparr>"

text \<open>An awaited host call either resolves with a value or rejects.\<close>

datatype 'a outcome = Resolved 'a | Rejected

text \<open>
  One iteration of the loop over the listed tabs: the tab, the clock and the two
  \<^verbatim>\<open>Math.random()\<close> values read in that iteration.
\<close>

definition refresh_tab :: "tab \<times> real \<times> real \<times> real \<Rightarrow> (int, tab_stats) alist \<Rightarrow> (int, tab_stats) alist" where
  "refresh_tab = (\<lambda>(tb, now, rnd1, rnd2) m.
     case DAList.lookup m (tab_id tb) of
       None \<Rightarrow> m
     | Some stats \<Rightarrow>
         DAList.update (tab_id tb)
           (stats\<lparr>t_lastSeen := Num now,
              t_memoryUsage :=
                Math_max (Num 10) (js_add (t_memoryUsage stats) (Num ((rnd1 - 0.5) * 10))),
              t_cpuUsage :=
                Math_max (Num 0)
                  (Math_min (Num 100) (js_add (t_cpuUsage stats) (Num ((rnd2 - 0.5) * 5))))\<rparr>)
           m)"

text \<open>
  The body of the interval callback of \<^verbatim>\<open>startMonitoring\<close>. When the tab listing
  rejects, the error is caught and nothing else runs in that tick.
\<close>

definition refresh_tabs :: "(tab \<times> real \<times> real \<times> real) list \<Rightarrow> manager \<Rightarrow> manager" where
  "refresh_tabs tabs s = s\<lparr>tabStats := fold refresh_tab tabs (tabStats s)\<rparr>"

definition monitoringTick ::
  "(tab \<times> real \<times> real \<times> real) list outcome \<Rightarrow> real \<Rightarrow> bool \<Rightarrow> bool \<Rightarrow> manager \<Rightarrow> manager" where
  "monitoringTick listing now ok1 ok2 s =
     (case listing of
        Rejected \<Rightarrow> s
      | Resolved tabs \<Rightarrow>
          updateStoredDownloadStats ok2
            (updateStoredStats ok1 (cleanupOldStats now (refresh_tabs tabs s))))"

section \<open>External storage changes\<close>

record 'a storage_change =
  oldValue :: "'a option"
  newValue :: "'a option"

record storage_changes =
  ch_tabStats :: "(int \<times> tab_stats) list storage_change option"
  ch_downloadStats :: "(int \<times> download_stats) list storage_change option"

definition onStorageChanged :: "storage_changes \<Rightarrow> string \<Rightarrow> manager \<Rightarrow> manager" where
  "onStorageChanged changes namespace s =
     (if namespace = ''local'' then
        let s1 = (case ch_tabStats changes of
                    Some c \<Rightarrow> s\<lparr>tabStats := new_Map (case newValue c of Some ps \<Rightarrow> ps | None \<Rightarrow> [])\<rparr>
                  | None \<Rightarrow> s)
        in (case ch_downloadStats changes of
              Some c \<Rightarrow> s1\<lparr>downloadStats := new_Map (case newValue c of Some ps \<Rightarrow> ps | None \<Rightarrow> [])\<rparr>
            | None \<Rightarrow> s1)
      else s)"

section \<open>System statistics\<close>

definition Math_floor :: "jsval \<Rightarrow> jsval" where
  "Math_floor v = (case v of Num x \<Rightarrow> Num (of_int \<lfloor>x\<rfloor>) | Undefined \<Rightarrow> NaN | _ \<Rightarrow> v)"

definition Math_round :: "jsval \<Rightarrow> jsval" where
  "Math_round v = (case v of Num x \<Rightarrow> Num (of_int \<lfloor>x + 1 / 2\<rfloor>) | Undefined \<Rightarrow> NaN | _ \<Rightarrow> v)"

text \<open>
  What \<^verbatim>\<open>getSystemStats\<close> finds in the host: whether \<^verbatim>\<open>chrome.system.cpu\<close> and
  \<^verbatim>\<open>chrome.system.memory\<close> exist, and the outcome of each awaited call
  (\<^verbatim>\<open>capacity\<close> and \<^verbatim>\<open>availableCapacity\<close> for the memory).
\<close>

record system_host =
  has_system_cpu :: bool
  cpu_getInfo :: "unit outcome"
  tabs_query :: "tab list outcome"
  downloads_in_progress :: "download_item list outcome"
  has_system_memory :: bool
  memory_getInfo :: "(real \<times> real) outcome"

record system_stats =
  cpu :: jsval
  memory :: jsval
  timestamp :: real

text \<open>
  \<^verbatim>\<open>rnd\<close> is the noise of the estimate, \<^verbatim>\<open>rnd_cpu\<close> and \<^verbatim>\<open>rnd_mem\<close> are the two
  \<^verbatim>\<open>Math.random()\<close> values of the \<^verbatim>\<open>catch\<close> block. The first stage is the
  \<^verbatim>\<open>chrome.system.cpu\<close> block: \<^const>\<open>None\<close> when one of its awaited calls rejects.
\<close>

definition cpu_stage :: "system_host \<Rightarrow> real \<Rightarrow> system_stats \<Rightarrow> system_stats option" where
  "cpu_stage h rnd stats =
     (if has_system_cpu h then
        (case cpu_getInfo h of
           Rejected \<Rightarrow> None
         | Resolved cpuInfo \<Rightarrow>
            (case tabs_query h of
               Rejected \<Rightarrow> None
             | Resolved tabs \<Rightarrow>
                (case downloads_in_progress h of
                   Rejected \<Rightarrow> None
                 | Resolved downloads \<Rightarrow>
                     let tabCount = real (length tabs);
                         downloadCount = real (length downloads)
                     in Some (stats\<lparr>cpu :=
                          Math_min (Num 90)
                            (Math_max (Num 5) (Num (tabCount * 2 + downloadCount * 5 + rnd * 20)))\<rparr>))))
      else Some stats)"

definition memory_stage :: "system_host \<Rightarrow> system_stats \<Rightarrow> system_stats option" where
  "memory_stage h stats =
     (if has_system_memory h then
        (case memory_getInfo h of
           Rejected \<Rightarrow> None
         | Resolved (capacity, availableCapacity) \<Rightarrow>
             let usedMemory = js_sub (Num capacity) (Num availableCapacity)
             in Some (stats\<lparr>memory :=
                  Math_round (js_mul (js_div usedMemory (Num capacity)) (Num 100))\<rparr>))
      else Some stats)"

definition getSystemStats :: "system_host \<Rightarrow> real \<Rightarrow> real \<Rightarrow> real \<Rightarrow> real \<Rightarrow> system_stats" where
  "getSystemStats h now rnd rnd_cpu rnd_mem =
     (let stats = \<lparr>cpu = Num 0, memory = Num 0, timestamp = now\<rparr>;
          fallback = stats\<lparr>cpu := Math_floor (Num (rnd_cpu * 60 + 20)),
                       memory := Math_floor (Num (rnd_mem * 40 + 30))\<rparr>
      in case cpu_stage h rnd stats of
           None \<Rightarrow> fallback
         | Some stats1 \<Rightarrow>
             (case memory_stage h stats1 of
                None \<Rightarrow> fallback
              | Some stats2 \<Rightarrow> stats2))"

section \<open>Tab lifecycle events\<close>

text \<open>
  The \<^verbatim>\<open>chrome.tabs.onCreated\<close> and \<^verbatim>\<open>chrome.tabs.onRemoved\<close> listeners of
  \<^verbatim>\<open>setupEventListeners\<close>. An event comes with the clock value and the outcome of the
  storage write of its handler.
\<close>

datatype tab_event = TabCreated tab | TabRemoved int

definition dispatch_tab_event :: "tab_event \<times> real \<times> bool \<Rightarrow> manager \<Rightarrow> manager" where
  "dispatch_tab_event = (\<lambda>(ev, now, ok) s.
     case ev of
       TabCreated tb \<Rightarrow> onTabCreated now ok tb s
     | TabRemoved tabId \<Rightarrow> onTabRemoved ok tabId s)"

text \<open>
  The tab ids that a sequence of events created and did not remove afterwards.
\<close>

definition created_not_removed :: "(tab_event \<times> real \<times> bool) list \<Rightarrow> int set" where
  "created_not_removed evs =
     {tab_id tb |tb env pre post.
        evs = pre @ (TabCreated tb, env) # post \<and> TabRemoved (tab_id tb) \<notin> fst ` set post}"

section \<open>Formatting\<close>

text \<open>
  Strings are lists of characters. The decimal digits of a natural number and of an
  integer, as \<^verbatim>\<open>String(n)\<close> writes an integer below \<open>10\<^sup>2\<^sup>1\<close>.
\<close>

definition digit_char :: "nat \<Rightarrow> char" where
  "digit_char d = ''0123456789'' ! d"

fun show_nat :: "nat \<Rightarrow> string" where
  "show_nat n = (if n < 10 then [digit_char n] else show_nat (n div 10) @ [digit_char (n mod 10)])"

declare show_nat.simps [simp del]

definition show_int :: "int \<Rightarrow> string" where
  "show_int i = (if i < 0 then CHR ''-'' # show_nat (nat (- i)) else show_nat (nat i))"

text \<open>
  \<^verbatim>\<open>String(Math.round(v))\<close>, as a template literal writes it.
\<close>

definition Math_round_string :: "jsval \<Rightarrow> string" where
  "Math_round_string v =
     (case Math_round v of
        Num x \<Rightarrow> show_int \<lfloor>x\<rfloor>
      | Infinity \<Rightarrow> ''Infinity''
      | NegInfinity \<Rightarrow> ''-Infinity''
      | _ \<Rightarrow> ''NaN'')"

text \<open>
  \<^verbatim>\<open>parseFloat(v.toFixed(1))\<close> written as a string: \<^verbatim>\<open>toFixed(1)\<close> rounds the
  magnitude to the nearest tenth, halves upwards, \<^verbatim>\<open>parseFloat\<close> reads the digits
  back, and the concatenation writes the number without a trailing \<^verbatim>\<open>.0\<close>. The
  argument of \<open>show_tenths\<close> is the number of tenths. The rounding is that of the
  exact value given, which is what \<^verbatim>\<open>toFixed\<close> does with the value of a double.
\<close>

definition show_tenths :: "int \<Rightarrow> string" where
  "show_tenths n =
     (if n < 0 then [CHR ''-''] else []) @ show_nat (nat \<bar>n\<bar> div 10) @
     (if nat \<bar>n\<bar> mod 10 = 0 then [] else [CHR ''.'', digit_char (nat \<bar>n\<bar> mod 10)])"

definition toFixed1_string :: "jsval \<Rightarrow> string" where
  "toFixed1_string v =
     (case v of
        Num x \<Rightarrow> show_tenths ((if x < 0 then - 1 else 1) * \<lfloor>\<bar>x\<bar> * 10 + 1 / 2\<rfloor>)
      | Infinity \<Rightarrow> ''Infinity''
      | NegInfinity \<Rightarrow> ''-Infinity''
      | _ \<Rightarrow> ''NaN'')"

text \<open>
  \<^verbatim>\<open>Math.log(v)\<close>, and \<^verbatim>\<open>Math.pow(k, v)\<close> for a base \<open>k\<close> above 1. Both are the
  exact functions: the rounding of their results is not represented, so the index that
  \<^verbatim>\<open>formatBytes\<close> computes is the exact one (next to a power of 1024 the code's index
  can be the neighbouring one).
\<close>

definition Math_log :: "jsval \<Rightarrow> jsval" where
  "Math_log v =
     (case v of
        Num x \<Rightarrow> if x < 0 then NaN else if x = 0 then NegInfinity else Num (ln x)
      | Infinity \<Rightarrow> Infinity
      | _ \<Rightarrow> NaN)"

definition Math_pow :: "real \<Rightarrow> jsval \<Rightarrow> jsval" where
  "Math_pow k v =
     (case v of
        Num y \<Rightarrow> Num (k powr y)
      | Infinity \<Rightarrow> Infinity
      | NegInfinity \<Rightarrow> Num 0
      | _ \<Rightarrow> NaN)"

text \<open>
  \<^verbatim>\<open>sizes[i]\<close> in a concatenation: an index that is not a position of the array reads
  \<^verbatim>\<open>undefined\<close>, which the concatenation writes as the text \<^verbatim>\<open>undefined\<close>.
\<close>

definition sizes :: "string list" where
  "sizes = [''B'', ''KB'', ''MB'', ''GB'']"

definition sizes_at :: "jsval \<Rightarrow> string" where
  "sizes_at i =
     (case i of
        Num y \<Rightarrow> if 0 \<le> y \<and> y < real (length sizes) \<and> of_int \<lfloor>y\<rfloor> = y
                 then sizes ! nat \<lfloor>y\<rfloor> else ''undefined''
      | _ \<Rightarrow> ''undefined'')"

definition formatBytes :: "jsval \<Rightarrow> string" where
  "formatBytes bytes =
     (if \<not> truthy bytes \<or> bytes = Num 0 then ''0 B''
      else
        let k = 1024;
            i = Math_floor (js_div (Math_log bytes) (Math_log (Num k)))
        in toFixed1_string (js_div bytes (Math_pow k i)) @ '' '' @ sizes_at i)"

text \<open>The unit of a formatted size: the text after its first space.\<close>

definition unit_of :: "string \<Rightarrow> string" where
  "unit_of t = drop 1 (dropWhile (\<lambda>c. c \<noteq> CHR '' '') t)"

definition formatTime :: "jsval \<Rightarrow> string" where
  "formatTime seconds =
     (if js_lt seconds (Num 60) then Math_round_string seconds @ ''s''
      else if js_lt seconds (Num 3600) then Math_round_string (js_div seconds (Num 60)) @ ''m''
      else Math_round_string (js_div seconds (Num 3600)) @ ''h'')"

section \<open>Download speed and time remaining\<close>

definition calculateDownloadSpeed :: "real \<Rightarrow> manager \<Rightarrow> int \<Rightarrow> string" where
  "calculateDownloadSpeed now s downloadId =
     (case DAList.lookup (downloadStats s) downloadId of
        None \<Rightarrow> ''N/A''
      | Some stats \<Rightarrow>
          if \<not> truthy (d_lastUpdated stats) \<or> \<not> truthy (d_bytesReceived stats) then ''N/A''
          else
            let timeDiff = js_div (js_sub (Num now) (d_lastUpdated stats)) (Num 1000)
            in if js_lt timeDiff (Num 1) then ''N/A''
               else
                 let speed = js_div (d_bytesReceived stats) timeDiff
                 in formatBytes speed @ ''/s'')"

text \<open>
  The regular expression \<^verbatim>\<open>/(\d+\.?\d*)\s*(\w+)/\<close>. \<open>match_here\<close> lists the matches
  that start at the head of the string in the order in which backtracking tries them
  (every quantifier is greedy: longest first); \<open>speed_match\<close> returns the two groups of
  the first match at the leftmost position that has one.
\<close>

definition is_digit :: "char \<Rightarrow> bool" where
  "is_digit c = (CHR ''0'' \<le> c \<and> c \<le> CHR ''9'')"

definition is_word :: "char \<Rightarrow> bool" where
  "is_word c = (is_digit c \<or> (CHR ''a'' \<le> c \<and> c \<le> CHR ''z'') \<or>
                (CHR ''A'' \<le> c \<and> c \<le> CHR ''Z'') \<or> c = CHR ''_'')"

definition is_space :: "char \<Rightarrow> bool" where
  "is_space c = (c \<in> set [CHR '' '', CHR 0x09, CHR 0x0A, CHR 0x0B, CHR 0x0C, CHR 0x0D, CHR 0xA0])"

definition match_here :: "string \<Rightarrow> (string \<times> string) list" where
  "match_here s =
     [(take (k1 + dt + k2) s, takeWhile is_word (drop (k1 + dt + k2 + k3) s)).
        k1 \<leftarrow> rev [1 ..< Suc (length (takeWhile is_digit s))],
        dt \<leftarrow> (if take 1 (drop k1 s) = ''.'' then [1, 0] else [0]),
        k2 \<leftarrow> rev [0 ..< Suc (length (takeWhile is_digit (drop (k1 + dt) s)))],
        k3 \<leftarrow> rev [0 ..< Suc (length (takeWhile is_space (drop (k1 + dt + k2) s)))],
        takeWhile is_word (drop (k1 + dt + k2 + k3) s) \<noteq> []]"

fun speed_match :: "string \<Rightarrow> (string \<times> string) option" where
  "speed_match s =
     (case match_here s of
        m # _ \<Rightarrow> Some m
      | [] \<Rightarrow> (case s of [] \<Rightarrow> None | _ # t \<Rightarrow> speed_match t))"

declare speed_match.simps [simp del]

text \<open>\<^verbatim>\<open>parseFloat\<close> on digits with an optional fraction, and \<^verbatim>\<open>toLowerCase\<close>.\<close>

definition digits_value :: "string \<Rightarrow> nat" where
  "digits_value ds = foldl (\<lambda>a c. 10 * a + (of_char c - 48)) 0 ds"

definition parseFloat :: "string \<Rightarrow> real" where
  "parseFloat t =
     (let whole = takeWhile is_digit t;
          rest = drop (length whole) t;
          frac = (if take 1 rest = ''.'' then takeWhile is_digit (drop 1 rest) else [])
      in real (digits_value whole) + real (digits_value frac) / 10 ^ length frac)"

definition toLowerCase :: "string \<Rightarrow> string" where
  "toLowerCase t =
     map (\<lambda>c. if CHR ''A'' \<le> c \<and> c \<le> CHR ''Z'' then char_of (of_char c + (32 :: nat)) else c) t"

definition calculateTimeRemaining :: "real \<Rightarrow> manager \<Rightarrow> int \<Rightarrow> string" where
  "calculateTimeRemaining now s downloadId =
     (case DAList.lookup (downloadStats s) downloadId of
        None \<Rightarrow> ''N/A''
      | Some stats \<Rightarrow>
          if \<not> truthy (d_totalBytes stats) \<or> \<not> truthy (d_bytesReceived stats) \<or>
             d_state stats \<noteq> Some ''in_progress''
          then ''N/A''
          else
            let remainingBytes = js_sub (d_totalBytes stats) (d_bytesReceived stats);
                speed = calculateDownloadSpeed now s downloadId
            in if speed = ''N/A'' then ''N/A''
               else
                 (case speed_match speed of
                    None \<Rightarrow> ''N/A''
                  | Some (speedText, speedUnit) \<Rightarrow>
                      let speedValue = parseFloat speedText;
                          unit = toLowerCase speedUnit;
                          bytesPerSecond =
                            (if unit = ''kb'' then speedValue * 1024
                             else if unit = ''mb'' then speedValue * (1024 * 1024)
                             else if unit = ''gb'' then speedValue * (1024 * 1024 * 1024)
                             else speedValue);
                          secondsRemaining = js_div remainingBytes (Num bytesPerSecond)
                      in formatTime secondsRemaining))"

section \<open>Double rounding\<close>

text \<open>
  \<open>to_double\<close> rounds a real number to the nearest double (IEEE 754 binary64, ties to
  the even significand): the unit in the last place of \<open>x\<close> is \<open>2\<close> to the power of its
  binary exponent (at least -1022, the exponent of the subnormal numbers) minus 52, and
  a result of magnitude \<open>2\<^sup>1\<^sup>0\<^sup>2\<^sup>4\<close> or more is infinite. \<open>double_div\<close> and
  \<open>double_mul\<close> are \<^verbatim>\<open>/\<close> and \<^verbatim>\<open>*\<close> with that rounding of the result.
\<close>

definition round_half_even :: "real \<Rightarrow> int" where
  "round_half_even y =
     (if y - of_int \<lfloor>y\<rfloor> < 1 / 2 then \<lfloor>y\<rfloor>
      else if 1 / 2 < y - of_int \<lfloor>y\<rfloor> then \<lfloor>y\<rfloor> + 1
      else if even \<lfloor>y\<rfloor> then \<lfloor>y\<rfloor> else \<lfloor>y\<rfloor> + 1)"

definition double_ulp :: "real \<Rightarrow> real" where
  "double_ulp x = 2 powr of_int (max \<lfloor>log 2 \<bar>x\<bar>\<rfloor> (- 1022) - 52)"

definition to_double :: "real \<Rightarrow> jsval" where
  "to_double x =
     (if x = 0 then Num 0
      else
        let r = of_int (round_half_even (x / double_ulp x)) * double_ulp x
        in if 2 ^ 1024 \<le> \<bar>r\<bar> then (if 0 < x then Infinity else NegInfinity) else Num r)"

definition double_div :: "jsval \<Rightarrow> jsval \<Rightarrow> jsval" where
  "double_div a b = (case js_div a b of Num q \<Rightarrow> to_double q | v \<Rightarrow> v)"

definition double_mul :: "jsval \<Rightarrow> jsval \<Rightarrow> jsval" where
  "double_mul a b = (case js_mul a b of Num p \<Rightarrow> to_double p | v \<Rightarrow> v)"

section \<open>Download statistics\<close>

text \<open>
  An element of the list that \<^verbatim>\<open>getEnhancedDownloadStats\<close> returns: the properties of
  the host's download item, overridden by those of the tracked record, and the three
  computed properties.
\<close>

record enhanced_download =
  e_id :: int
  e_filename :: "string option"
  e_url :: "string option"
  e_state :: "string option"
  e_bytesReceived :: jsval
  e_totalBytes :: jsval
  e_startTime :: string
  e_createdAt :: jsval
  e_lastUpdated :: jsval
  e_progress :: jsval
  e_speed :: string
  e_estimatedTimeRemaining :: string

text \<open>
  One iteration of the loop: the download, and the clock as \<^verbatim>\<open>calculateDownloadSpeed\<close>
  reads it for the speed and again for the time remaining.
\<close>

definition enhance :: "manager \<Rightarrow> download_item \<times> real \<times> real \<Rightarrow> enhanced_download" where
  "enhance s = (\<lambda>(download, now1, now2).
     let storedStats = download_or_empty s (di_id download)
     in \<lparr>e_id = (case d_id storedStats of Some i \<Rightarrow> i | None \<Rightarrow> di_id download),
         e_filename = (case d_filename storedStats of Some f \<Rightarrow> Some f | None \<Rightarrow> di_filename download),
         e_url = (case d_url storedStats of Some u \<Rightarrow> Some u | None \<Rightarrow> di_url download),
         e_state = (case d_state storedStats of Some st \<Rightarrow> Some st | None \<Rightarrow> di_state download),
         e_bytesReceived = (if d_bytesReceived storedStats = Undefined
                            then di_bytesReceived download else d_bytesReceived storedStats),
         e_totalBytes = (if d_totalBytes storedStats = Undefined
                         then di_totalBytes download else d_totalBytes storedStats),
         e_startTime = di_startTime download,
         e_createdAt = d_createdAt storedStats,
         e_lastUpdated = d_lastUpdated storedStats,
         e_progress = (if truthy (js_and (di_bytesReceived download) (di_totalBytes download))
                       then double_mul
                              (double_div (di_bytesReceived download) (di_totalBytes download))
                              (Num 100)
                       else Num 0),
         e_speed = calculateDownloadSpeed now1 s (di_id download),
         e_estimatedTimeRemaining = calculateTimeRemaining now2 s (di_id download)\<rparr>)"

text \<open>
  \<^verbatim>\<open>a.localeCompare(b)\<close>, taken as the comparison of the two strings character by
  character (on timestamps of one format the collation order is that order).
\<close>

definition localeCompare :: "string \<Rightarrow> string \<Rightarrow> int" where
  "localeCompare a b = (if a < b then - 1 else if a = b then 0 else 1)"

text \<open>
  \<^verbatim>\<open>Array.prototype.sort\<close> with a comparison function is a stable sort: an element
  goes before the first element that it does not have to follow.
\<close>

fun insert_sorted :: "('a \<Rightarrow> 'a \<Rightarrow> int) \<Rightarrow> 'a \<Rightarrow> 'a list \<Rightarrow> 'a list" where
  "insert_sorted cmp x [] = [x]"
| "insert_sorted cmp x (y # ys) =
     (if cmp x y \<le> 0 then x # y # ys else y # insert_sorted cmp x ys)"

definition Array_sort :: "('a \<Rightarrow> 'a \<Rightarrow> int) \<Rightarrow> 'a list \<Rightarrow> 'a list" where
  "Array_sort cmp xs = foldr (insert_sorted cmp) xs []"

definition getEnhancedDownloadStats ::
  "(download_item \<times> real \<times> real) list outcome \<Rightarrow> manager \<Rightarrow> enhanced_download list outcome" where
  "getEnhancedDownloadStats search s =
     (case search of
        Rejected \<Rightarrow> Rejected
      | Resolved downloads \<Rightarrow>
          Resolved (Array_sort (\<lambda>a b. localeCompare (e_startTime b) (e_startTime a))
                      (map (enhance s) downloads)))"

text \<open>
  The host writes a start time as \<^verbatim>\<open>YYYY-MM-DDTHH:MM:SS.mmmZ\<close> (UTC). Two strings
  have the same shape when they have digits at the same positions and the same
  character elsewhere. The digits of a timestamp, read as one number, order the
  timestamps in time.
\<close>

fun same_shape :: "string \<Rightarrow> string \<Rightarrow> bool" where
  "same_shape [] [] = True"
| "same_shape (x # xs) (y # ys) =
     ((if is_digit x then is_digit y else x = y) \<and> same_shape xs ys)"
| "same_shape _ _ = False"

definition iso_utc :: "string \<Rightarrow> bool" where
  "iso_utc t = same_shape t ''0000-00-00T00:00:00.000Z''"

definition iso_key :: "string \<Rightarrow> nat" where
  "iso_key t = digits_value (filter is_digit t)"

section \<open>Properties of the stores\<close>

lemma tabStats_updateStoredStats [simp]:
  "tabStats (updateStoredStats ok s) = tabStats s"
  by (simp add: updateStoredStats_def)

lemma downloadStats_updateStoredStats [simp]:
  "downloadStats (updateStoredStats ok s) = downloadStats s"
  by (simp add: updateStoredStats_def)

lemma tabStats_updateStoredDownloadStats [simp]:
  "tabStats (updateStoredDownloadStats ok s) = tabStats s"
  by (simp add: updateStoredDownloadStats_def)

lemma downloadStats_updateStoredDownloadStats [simp]:
  "downloadStats (updateStoredDownloadStats ok s) = downloadStats s"
  by (simp add: updateStoredDownloadStats_def)

lemma lookup_delete_where_aux:
  "distinct (map fst xs) \<Longrightarrow>
   DAList.lookup (fold (\<lambda>(k, stats) m'. if old stats then DAList.delete k m' else m') xs m) k
     = (if \<exists>v. (k, v) \<in> set xs \<and> old v then None else DAList.lookup m k)"
proof (induction xs arbitrary: m)
  case Nil
  then show ?case by simp
next
  case (Cons p xs)
  obtain k' v' where p: "p = (k', v')" by (cases p)
  from Cons.prems have d: "distinct (map fst xs)" and nin: "k' \<notin> fst ` set xs"
    by (auto simp: p)
  show ?case
    using Cons.IH [OF d] nin by (auto simp: p image_iff)
qed

lemma lookup_delete_where:
  "DAList.lookup (delete_where old m) k =
     (case DAList.lookup m k of None \<Rightarrow> None | Some v \<Rightarrow> if old v then None else Some v)"
proof -
  have d: "distinct (map fst (DAList.impl_of m))" by simp
  have mem: "\<And>v. (k, v) \<in> set (DAList.impl_of m) \<longleftrightarrow> DAList.lookup m k = Some v"
    by (simp add: DAList.lookup.rep_eq)
  show ?thesis
    unfolding delete_where_def lookup_delete_where_aux [OF d] mem
    by (auto split: option.splits)
qed

lemma size_alist_card: "length (DAList.impl_of m) = card (dom (DAList.lookup m))"
proof -
  have "card (dom (DAList.lookup m)) = card (set (map fst (DAList.impl_of m)))"
    by (simp add: DAList.lookup.rep_eq dom_map_of_conv_image_fst)
  also have "\<dots> = length (map fst (DAList.impl_of m))"
    by (rule distinct_card) simp
  finally show ?thesis by simp
qed

lemma lookup_new_Map_aux:
  "DAList.lookup (fold (\<lambda>(k, v) m. DAList.update k v m) ps m0) = DAList.lookup m0 ++ map_of (rev ps)"
proof (induction ps arbitrary: m0)
  case Nil
  then show ?case by simp
next
  case (Cons p ps)
  obtain k v where p: "p = (k, v)" by (cases p)
  show ?case
    by (rule ext) (simp add: p Cons.IH DAList.lookup_update map_add_def split: option.splits)
qed

lemma lookup_new_Map: "DAList.lookup (new_Map ps) = map_of (rev ps)"
  unfolding new_Map_def lookup_new_Map_aux by (rule ext) (simp add: map_add_def split: option.splits)

lemma delete_absent: "DAList.lookup m k = None \<Longrightarrow> DAList.delete k m = m"
proof -
  assume "DAList.lookup m k = None"
  then have "k \<notin> fst ` set (DAList.impl_of m)"
    by (simp add: DAList.lookup.rep_eq map_of_eq_None_iff)
  then have "AList.delete k (DAList.impl_of m) = DAList.impl_of m"
    by (simp add: delete_idem)
  then show ?thesis
    by (simp add: DAList.alist_eq_iff DAList.delete.rep_eq)
qed

section \<open>Download deltas\<close>

text \<open>
  Claim C1. \<^verbatim>\<open>onDownloadChanged\<close> stores, under the id of the delta, the prior record
  (the empty record when the download was not tracked) in which \<^verbatim>\<open>state\<close>,
  \<^verbatim>\<open>bytesReceived\<close> and \<^verbatim>\<open>totalBytes\<close> are replaced by the current value of the
  delta exactly when the delta has that property and keep their prior value otherwise,
  \<^verbatim>\<open>lastUpdated\<close> is the current time, every other property is the prior one, and
  the records of the other downloads are untouched.
\<close>

theorem onDownloadChanged_partial_update:
  "let prior = (case DAList.lookup (downloadStats s) (dd_id delta) of
                  Some r \<Rightarrow> r | None \<Rightarrow> empty_download_stats)
   in \<exists>r'. DAList.lookup (downloadStats (onDownloadChanged now ok delta s)) =
              (DAList.lookup (downloadStats s))(dd_id delta \<mapsto> r') \<and>
        d_state r' = (case dd_state delta of Some c \<Rightarrow> sd_current c | None \<Rightarrow> d_state prior) \<and>
        d_bytesReceived r' =
          (case dd_bytesReceived delta of Some c \<Rightarrow> nd_current c | None \<Rightarrow> d_bytesReceived prior) \<and>
        d_totalBytes r' =
          (case dd_totalBytes delta of Some c \<Rightarrow> nd_current c | None \<Rightarrow> d_totalBytes prior) \<and>
        d_lastUpdated r' = Num now \<and>
        d_id r' = d_id prior \<and> d_filename r' = d_filename prior \<and> d_url r' = d_url prior \<and>
        d_createdAt r' = d_createdAt prior"
  unfolding Let_def
  by (rule exI [of _ "apply_delta now delta (download_or_empty s (dd_id delta))"])
     (auto simp: onDownloadChanged_def apply_delta_def download_or_empty_def Let_def
           DAList.lookup_update split: option.splits)

section \<open>Eviction of stale records\<close>

lemma tab_expired_Num:
  "js_or (t_lastSeen r) (t_createdAt r) = Num t \<Longrightarrow> tab_expired now r \<longleftrightarrow> now - t > 86400000"
  by (simp add: tab_expired_def js_gt_def js_sub_def maxAge_def)

lemma download_expired_Num:
  "js_or (d_lastUpdated r) (d_createdAt r) = Num t \<Longrightarrow> download_expired now r \<longleftrightarrow> now - t > 86400000"
  by (simp add: download_expired_def js_gt_def js_sub_def maxAge_def)

lemma lookup_cleanup_tabs:
  "DAList.lookup (tabStats (cleanupOldStats now s)) i =
     (case DAList.lookup (tabStats s) i of
        None \<Rightarrow> None | Some r \<Rightarrow> if tab_expired now r then None else Some r)"
  by (simp add: cleanupOldStats_def lookup_delete_where)

lemma lookup_cleanup_downloads:
  "DAList.lookup (downloadStats (cleanupOldStats now s)) i =
     (case DAList.lookup (downloadStats s) i of
        None \<Rightarrow> None | Some r \<Rightarrow> if download_expired now r then None else Some r)"
  by (simp add: cleanupOldStats_def lookup_delete_where)

lemma lookup_refresh_unlisted:
  "i \<notin> tab_id ` fst ` set tabs \<Longrightarrow>
   DAList.lookup (fold refresh_tab tabs m) i = DAList.lookup m i"
proof (induction tabs arbitrary: m)
  case Nil
  then show ?case by simp
next
  case (Cons p tabs)
  obtain tb now r1 r2 where p: "p = (tb, now, r1, r2)" by (cases p)
  from Cons.prems have ne: "tab_id tb \<noteq> i" and rest: "i \<notin> tab_id ` fst ` set tabs"
    by (auto simp: p)
  have "DAList.lookup (refresh_tab p m) i = DAList.lookup m i"
    using ne by (simp add: p refresh_tab_def DAList.lookup_update split: option.splits)
  with Cons.IH [OF rest] show ?case by simp
qed

lemma downloadStats_refresh_tabs [simp]: "downloadStats (refresh_tabs tabs s) = downloadStats s"
  by (simp add: refresh_tabs_def)

lemma monitoringTick_rejected: "monitoringTick Rejected now ok1 ok2 s = s"
  by (simp add: monitoringTick_def)

text \<open>
  Claim C2, as stated, fails: a tab record created 25 hours before a tick is still
  tracked after the tick when the tab listing of that tick rejects, because the error is
  caught before \<^verbatim>\<open>cleanupOldStats\<close> runs; the same record is removed by a tick whose
  listing resolves.
\<close>

theorem stale_record_survives_rejected_listing:
  "DAList.lookup (tabStats
      (onTabCreated 1699910000000 True \<lparr>tab_id = 1, tab_title = None, tab_url = None\<rparr>
         new_manager)) 1 =
     Some \<lparr>t_id = Some 1, t_title = None, t_url = None, t_createdAt = Num 1699910000000,
           t_memoryUsage = Num 0, t_cpuUsage = Num 0, t_lastUpdated = Undefined,
           t_lastSeen = Undefined\<rparr> \<and>
   js_or Undefined (Num 1699910000000) = Num (1700000000000 - 25 * 60 * 60 * 1000) \<and>
   DAList.lookup (tabStats (monitoringTick Rejected 1700000000000 True True
      (onTabCreated 1699910000000 True \<lparr>tab_id = 1, tab_title = None, tab_url = None\<rparr>
         new_manager))) 1 =
     Some \<lparr>t_id = Some 1, t_title = None, t_url = None, t_createdAt = Num 1699910000000,
           t_memoryUsage = Num 0, t_cpuUsage = Num 0, t_lastUpdated = Undefined,
           t_lastSeen = Undefined\<rparr> \<and>
   DAList.lookup (tabStats (monitoringTick (Resolved []) 1700000000000 True True
      (onTabCreated 1699910000000 True \<lparr>tab_id = 1, tab_title = None, tab_url = None\<rparr>
         new_manager))) 1 = None"
  by (simp add: monitoringTick_def refresh_tabs_def lookup_cleanup_tabs tab_expired_def
        onTabCreated_def new_manager_def js_or_def js_sub_def js_gt_def maxAge_def)

text \<open>
  Claim C2, amended. In a monitoring tick whose tab listing resolves,
  \<^verbatim>\<open>cleanupOldStats\<close> runs after the listed tabs have been refreshed. A tab record
  whose timestamp \<^verbatim>\<open>lastSeen || createdAt\<close> is the number \<open>t\<close> when cleanup runs is
  removed if \<open>now - t\<close> exceeds 24 hours and is kept otherwise; the record of a tab that
  is not listed is the one tracked before the tick. The same holds for a download
  record and \<^verbatim>\<open>lastUpdated || createdAt\<close>. In particular a record of an unlisted tab
  or of a download observed 25 hours ago is removed and one observed 23 hours ago is
  kept. A tick whose tab listing rejects changes nothing.
\<close>

theorem monitoringTick_evicts_stale:
  "(\<forall>r t. DAList.lookup (tabStats (refresh_tabs tabs s)) i = Some r \<and>
          js_or (t_lastSeen r) (t_createdAt r) = Num t \<longrightarrow>
      DAList.lookup (tabStats (monitoringTick (Resolved tabs) now ok1 ok2 s)) i =
        (if 24 * 60 * 60 * 1000 < now - t then None else Some r)) \<and>
   (i \<notin> tab_id ` fst ` set tabs \<longrightarrow>
      DAList.lookup (tabStats (refresh_tabs tabs s)) i = DAList.lookup (tabStats s) i) \<and>
   (\<forall>r t. DAList.lookup (downloadStats s) i = Some r \<and>
          js_or (d_lastUpdated r) (d_createdAt r) = Num t \<longrightarrow>
      DAList.lookup (downloadStats (monitoringTick (Resolved tabs) now ok1 ok2 s)) i =
        (if 24 * 60 * 60 * 1000 < now - t then None else Some r)) \<and>
   (\<forall>r. DAList.lookup (tabStats s) i = Some r \<and> i \<notin> tab_id ` fst ` set tabs \<and>
        js_or (t_lastSeen r) (t_createdAt r) = Num (now - 25 * 60 * 60 * 1000) \<longrightarrow>
      DAList.lookup (tabStats (monitoringTick (Resolved tabs) now ok1 ok2 s)) i = None) \<and>
   (\<forall>r. DAList.lookup (tabStats s) i = Some r \<and> i \<notin> tab_id ` fst ` set tabs \<and>
        js_or (t_lastSeen r) (t_createdAt r) = Num (now - 23 * 60 * 60 * 1000) \<longrightarrow>
      DAList.lookup (tabStats (monitoringTick (Resolved tabs) now ok1 ok2 s)) i = Some r) \<and>
   (\<forall>r. DAList.lookup (downloadStats s) i = Some r \<and>
        js_or (d_lastUpdated r) (d_createdAt r) = Num (now - 25 * 60 * 60 * 1000) \<longrightarrow>
      DAList.lookup (downloadStats (monitoringTick (Resolved tabs) now ok1 ok2 s)) i = None) \<and>
   (\<forall>r. DAList.lookup (downloadStats s) i = Some r \<and>
        js_or (d_lastUpdated r) (d_createdAt r) = Num (now - 23 * 60 * 60 * 1000) \<longrightarrow>
      DAList.lookup (downloadStats (monitoringTick (Resolved tabs) now ok1 ok2 s)) i = Some r) \<and>
   monitoringTick Rejected now ok1 ok2 s = s"
proof -
  have unlisted: "i \<notin> tab_id ` fst ` set tabs \<Longrightarrow>
      DAList.lookup (tabStats (refresh_tabs tabs s)) i = DAList.lookup (tabStats s) i"
    by (simp add: refresh_tabs_def lookup_refresh_unlisted)
  have tabs_eq: "DAList.lookup (tabStats (monitoringTick (Resolved tabs) now ok1 ok2 s)) i =
      (case DAList.lookup (tabStats (refresh_tabs tabs s)) i of
         None \<Rightarrow> None | Some r \<Rightarrow> if tab_expired now r then None else Some r)"
    by (simp add: monitoringTick_def lookup_cleanup_tabs)
  have dls_eq: "DAList.lookup (downloadStats (monitoringTick (Resolved tabs) now ok1 ok2 s)) i =
      (case DAList.lookup (downloadStats s) i of
         None \<Rightarrow> None | Some r \<Rightarrow> if download_expired now r then None else Some r)"
    by (simp add: monitoringTick_def lookup_cleanup_downloads)
  show ?thesis
    unfolding tabs_eq dls_eq
    using unlisted by (simp add: tab_expired_Num download_expired_Num monitoringTick_rejected)
qed

theorem monitoringTick_evicts_stale_witness:
  "DAList.lookup (tabStats (monitoringTick (Resolved []) 1700000000000 True True
       (new_manager\<lparr>tabStats :=
          DAList.update 1 (empty_tab_stats\<lparr>t_lastSeen := Num 1699910000000\<rparr>)
            (DAList.update 2 (empty_tab_stats\<lparr>t_createdAt := Num 1699917200000\<rparr>) DAList.empty),
          downloadStats :=
          DAList.update 3 (empty_download_stats\<lparr>d_lastUpdated := Num 1699910000000\<rparr>)
            (DAList.update 4 (empty_download_stats\<lparr>d_createdAt := Num 1699917200000\<rparr>)
               DAList.empty)\<rparr>))) 1 = None \<and>
   DAList.lookup (tabStats (monitoringTick (Resolved []) 1700000000000 True True
       (new_manager\<lparr>tabStats :=
          DAList.update 1 (empty_tab_stats\<lparr>t_lastSeen := Num 1699910000000\<rparr>)
            (DAList.update 2 (empty_tab_stats\<lparr>t_createdAt := Num 1699917200000\<rparr>) DAList.empty),
          downloadStats :=
          DAList.update 3 (empty_download_stats\<lparr>d_lastUpdated := Num 1699910000000\<rparr>)
            (DAList.update 4 (empty_download_stats\<lparr>d_createdAt := Num 1699917200000\<rparr>)
               DAList.empty)\<rparr>))) 2 = Some (empty_tab_stats\<lparr>t_createdAt := Num 1699917200000\<rparr>) \<and>
   DAList.lookup (downloadStats (monitoringTick (Resolved []) 1700000000000 True True
       (new_manager\<lparr>tabStats :=
          DAList.update 1 (empty_tab_stats\<lparr>t_lastSeen := Num 1699910000000\<rparr>)
            (DAList.update 2 (empty_tab_stats\<lparr>t_createdAt := Num 1699917200000\<rparr>) DAList.empty),
          downloadStats :=
          DAList.update 3 (empty_download_stats\<lparr>d_lastUpdated := Num 1699910000000\<rparr>)
            (DAList.update 4 (empty_download_stats\<lparr>d_createdAt := Num 1699917200000\<rparr>)
               DAList.empty)\<rparr>))) 3 = None \<and>
   DAList.lookup (downloadStats (monitoringTick (Resolved []) 1700000000000 True True
       (new_manager\<lparr>tabStats :=
          DAList.update 1 (empty_tab_stats\<lparr>t_lastSeen := Num 1699910000000\<rparr>)
            (DAList.update 2 (empty_tab_stats\<lparr>t_createdAt := Num 1699917200000\<rparr>) DAList.empty),
          downloadStats :=
          DAList.update 3 (empty_download_stats\<lparr>d_lastUpdated := Num 1699910000000\<rparr>)
            (DAList.update 4 (empty_download_stats\<lparr>d_createdAt := Num 1699917200000\<rparr>)
               DAList.empty)\<rparr>))) 4 =
     Some (empty_download_stats\<lparr>d_createdAt := Num 1699917200000\<rparr>)"
proof -
  define s where "s = new_manager\<lparr>tabStats :=
          DAList.update 1 (empty_tab_stats\<lparr>t_lastSeen := Num 1699910000000\<rparr>)
            (DAList.update 2 (empty_tab_stats\<lparr>t_createdAt := Num 1699917200000\<rparr>) DAList.empty),
          downloadStats :=
          DAList.update 3 (empty_download_stats\<lparr>d_lastUpdated := Num 1699910000000\<rparr>)
            (DAList.update 4 (empty_download_stats\<lparr>d_createdAt := Num 1699917200000\<rparr>)
               DAList.empty)\<rparr>"
  have t1: "DAList.lookup (tabStats s) 1 = Some (empty_tab_stats\<lparr>t_lastSeen := Num 1699910000000\<rparr>)"
    and t2: "DAList.lookup (tabStats s) 2 = Some (empty_tab_stats\<lparr>t_createdAt := Num 1699917200000\<rparr>)"
    and d3: "DAList.lookup (downloadStats s) 3 =
               Some (empty_download_stats\<lparr>d_lastUpdated := Num 1699910000000\<rparr>)"
    and d4: "DAList.lookup (downloadStats s) 4 =
               Some (empty_download_stats\<lparr>d_createdAt := Num 1699917200000\<rparr>)"
    by (simp_all add: s_def new_manager_def DAList.lookup_update)
  have r: "refresh_tabs [] s = s"
    by (simp add: refresh_tabs_def)
  have "DAList.lookup (tabStats (monitoringTick (Resolved []) 1700000000000 True True s)) 1 = None"
    using monitoringTick_evicts_stale [of "[]" s 1 1700000000000 True True] t1
    by (simp add: r empty_tab_stats_def js_or_def)
  moreover have "DAList.lookup (tabStats (monitoringTick (Resolved []) 1700000000000 True True s)) 2 =
      Some (empty_tab_stats\<lparr>t_createdAt := Num 1699917200000\<rparr>)"
    using monitoringTick_evicts_stale [of "[]" s 2 1700000000000 True True] t2
    by (simp add: r empty_tab_stats_def js_or_def)
  moreover have "DAList.lookup (downloadStats (monitoringTick (Resolved []) 1700000000000 True True s)) 3 =
      None"
    using monitoringTick_evicts_stale [of "[]" s 3 1700000000000 True True] d3
    by (simp add: empty_download_stats_def js_or_def)
  moreover have "DAList.lookup (downloadStats (monitoringTick (Resolved []) 1700000000000 True True s)) 4 =
      Some (empty_download_stats\<lparr>d_createdAt := Num 1699917200000\<rparr>)"
    using monitoringTick_evicts_stale [of "[]" s 4 1700000000000 True True] d4
    by (simp add: empty_download_stats_def js_or_def)
  ultimately show ?thesis
    unfolding s_def by (intro conjI)
qed

section \<open>Tab events\<close>

lemma created_not_removed_Nil [simp]: "created_not_removed [] = {}"
  by (simp add: created_not_removed_def)

lemma created_not_removed_snoc_created:
  "created_not_removed (evs @ [(TabCreated tb, env)]) = insert (tab_id tb) (created_not_removed evs)"
proof (rule set_eqI, rule iffI)
  fix i
  assume "i \<in> created_not_removed (evs @ [(TabCreated tb, env)])"
  then obtain tb' env' pre post where i: "i = tab_id tb'"
    and dec: "evs @ [(TabCreated tb, env)] = pre @ (TabCreated tb', env') # post"
    and nr: "TabRemoved (tab_id tb') \<notin> fst ` set post"
    by (auto simp: created_not_removed_def)
  show "i \<in> insert (tab_id tb) (created_not_removed evs)"
  proof (cases post rule: rev_cases)
    case Nil
    with dec have "tb' = tb" by simp
    with i show ?thesis by simp
  next
    case (snoc post' e)
    with dec have evs: "evs = pre @ (TabCreated tb', env') # post'" by simp
    from nr snoc have "TabRemoved (tab_id tb') \<notin> fst ` set post'" by auto
    with evs i have "i \<in> created_not_removed evs"
      unfolding created_not_removed_def by blast
    then show ?thesis by simp
  qed
next
  fix i
  assume "i \<in> insert (tab_id tb) (created_not_removed evs)"
  then consider "i = tab_id tb" | "i \<in> created_not_removed evs" by auto
  then show "i \<in> created_not_removed (evs @ [(TabCreated tb, env)])"
  proof cases
    case 1
    have "evs @ [(TabCreated tb, env)] = evs @ (TabCreated tb, env) # []" by simp
    moreover have "TabRemoved (tab_id tb) \<notin> fst ` set []" by simp
    ultimately show ?thesis unfolding created_not_removed_def 1 by blast
  next
    case 2
    then obtain tb' env' pre post where i: "i = tab_id tb'"
      and evs: "evs = pre @ (TabCreated tb', env') # post"
      and nr: "TabRemoved (tab_id tb') \<notin> fst ` set post"
      by (auto simp: created_not_removed_def)
    have "evs @ [(TabCreated tb, env)] = pre @ (TabCreated tb', env') # (post @ [(TabCreated tb, env)])"
      by (simp add: evs)
    moreover have "TabRemoved (tab_id tb') \<notin> fst ` set (post @ [(TabCreated tb, env)])"
      using nr by auto
    ultimately show ?thesis unfolding created_not_removed_def i by blast
  qed
qed

lemma created_not_removed_snoc_removed:
  "created_not_removed (evs @ [(TabRemoved j, env)]) = created_not_removed evs - {j}"
proof (rule set_eqI, rule iffI)
  fix i
  assume "i \<in> created_not_removed (evs @ [(TabRemoved j, env)])"
  then obtain tb' env' pre post where i: "i = tab_id tb'"
    and dec: "evs @ [(TabRemoved j, env)] = pre @ (TabCreated tb', env') # post"
    and nr: "TabRemoved (tab_id tb') \<notin> fst ` set post"
    by (auto simp: created_not_removed_def)
  show "i \<in> created_not_removed evs - {j}"
  proof (cases post rule: rev_cases)
    case Nil
    with dec show ?thesis by simp
  next
    case (snoc post' e)
    with dec have evs: "evs = pre @ (TabCreated tb', env') # post'" and e: "e = (TabRemoved j, env)"
      by simp_all
    from nr snoc e have "TabRemoved (tab_id tb') \<notin> fst ` set post'" and "tab_id tb' \<noteq> j"
      by auto
    with evs i show ?thesis
      unfolding created_not_removed_def by blast
  qed
next
  fix i
  assume "i \<in> created_not_removed evs - {j}"
  then obtain tb' env' pre post where i: "i = tab_id tb'" and ne: "tab_id tb' \<noteq> j"
    and evs: "evs = pre @ (TabCreated tb', env') # post"
    and nr: "TabRemoved (tab_id tb') \<notin> fst ` set post"
    by (auto simp: created_not_removed_def)
  have "evs @ [(TabRemoved j, env)] = pre @ (TabCreated tb', env') # (post @ [(TabRemoved j, env)])"
    by (simp add: evs)
  moreover have "TabRemoved (tab_id tb') \<notin> fst ` set (post @ [(TabRemoved j, env)])"
    using nr ne by auto
  ultimately show "i \<in> created_not_removed (evs @ [(TabRemoved j, env)])"
    unfolding created_not_removed_def i by blast
qed

lemma dispatch_TabCreated [simp]:
  "dispatch_tab_event (TabCreated tb, now, ok) s = onTabCreated now ok tb s"
  by (simp add: dispatch_tab_event_def)

lemma dispatch_TabRemoved [simp]:
  "dispatch_tab_event (TabRemoved j, now, ok) s = onTabRemoved ok j s"
  by (simp add: dispatch_tab_event_def)

lemma dom_onTabCreated:
  "dom (DAList.lookup (tabStats (onTabCreated now ok tb s))) =
     insert (tab_id tb) (dom (DAList.lookup (tabStats s)))"
  by (auto simp: onTabCreated_def DAList.lookup_update dom_def)

lemma dom_onTabRemoved:
  "dom (DAList.lookup (tabStats (onTabRemoved ok j s))) = dom (DAList.lookup (tabStats s)) - {j}"
  by (auto simp: onTabRemoved_def dom_def)

lemma dom_tabStats_events:
  "dom (DAList.lookup (tabStats (fold dispatch_tab_event evs new_manager))) = created_not_removed evs"
proof (induction evs rule: rev_induct)
  case Nil
  then show ?case by (simp add: new_manager_def)
next
  case (snoc e evs)
  obtain ev now ok where e: "e = (ev, now, ok)" by (cases e)
  show ?case
  proof (cases ev)
    case (TabCreated tb)
    then show ?thesis
      using snoc.IH
      by (simp add: e dom_onTabCreated created_not_removed_snoc_created)
  next
    case (TabRemoved j)
    then show ?thesis
      using snoc.IH
      by (simp add: e dom_onTabRemoved created_not_removed_snoc_removed)
  qed
qed

text \<open>
  Claim C5. After any sequence of tab-created and tab-removed events from the initial
  state, the number of entries of \<^verbatim>\<open>tabStats\<close> is the number of distinct tab ids that
  were created and not removed afterwards; and removing an id that has no record leaves
  \<^verbatim>\<open>tabStats\<close> as it was.
\<close>

theorem tab_count_matches_events:
  "length (DAList.impl_of (tabStats (fold dispatch_tab_event evs new_manager))) =
     card (created_not_removed evs) \<and>
   (DAList.lookup (tabStats s) tabId = None \<longrightarrow>
      tabStats (onTabRemoved ok tabId s) = tabStats s)"
  by (simp add: size_alist_card dom_tabStats_events onTabRemoved_def delete_absent)


theorem tab_count_matches_events_witness:
  "length (DAList.impl_of (tabStats (fold dispatch_tab_event
      [(TabCreated \<lparr>tab_id = 1, tab_title = None, tab_url = None\<rparr>, 10, True),
       (TabCreated \<lparr>tab_id = 2, tab_title = None, tab_url = None\<rparr>, 20, True),
       (TabRemoved 1, 30, True),
       (TabRemoved 5, 40, False),
       (TabCreated \<lparr>tab_id = 2, tab_title = None, tab_url = None\<rparr>, 50, True)] new_manager))) = 1 \<and>
   card (created_not_removed
      [(TabCreated \<lparr>tab_id = 1, tab_title = None, tab_url = None\<rparr>, 10, True),
       (TabCreated \<lparr>tab_id = 2, tab_title = None, tab_url = None\<rparr>, 20, True),
       (TabRemoved 1, 30, True),
       (TabRemoved 5, 40, False),
       (TabCreated \<lparr>tab_id = 2, tab_title = None, tab_url = None\<rparr>, 50, True)]) = 1 \<and>
   DAList.lookup (tabStats new_manager) 5 = None \<and>
   tabStats (onTabRemoved True 5 new_manager) = tabStats new_manager"
  using tab_count_matches_events [of
      "[(TabCreated \<lparr>tab_id = 1, tab_title = None, tab_url = None\<rparr>, 10, True),
       (TabCreated \<lparr>tab_id = 2, tab_title = None, tab_url = None\<rparr>, 20, True),
       (TabRemoved 1, 30, True),
       (TabRemoved 5, 40, False),
       (TabCreated \<lparr>tab_id = 2, tab_title = None, tab_url = None\<rparr>, 50, True)]" new_manager 5 True]
  by (simp add: new_manager_def onTabCreated_def onTabRemoved_def updateStoredStats_def
        DAList.update.rep_eq DAList.delete.rep_eq DAList.empty.rep_eq)

section \<open>Replacement of a store from storage\<close>

text \<open>
  Claim C7. A change notification of the \<^verbatim>\<open>local\<close> storage area (where the stores
  are persisted) that has the key \<^verbatim>\<open>tabStats\<close> replaces the map: afterwards \<^verbatim>\<open>get\<close>
  is the lookup in the new list of pairs (the last pair of an id counts), which is empty
  when the new value is missing; the ids tracked are those of the new value, whatever
  was tracked before; every record found was supplied, and every pair supplied is found
  when the ids of the list are distinct. The same for \<^verbatim>\<open>downloadStats\<close>.
\<close>

theorem onStorageChanged_replaces_store:
  "(ch_tabStats changes = Some c \<longrightarrow>
      DAList.lookup (tabStats (onStorageChanged changes ''local'' s)) =
        map_of (rev (case newValue c of Some ps \<Rightarrow> ps | None \<Rightarrow> [])) \<and>
      dom (DAList.lookup (tabStats (onStorageChanged changes ''local'' s))) =
        fst ` set (case newValue c of Some ps \<Rightarrow> ps | None \<Rightarrow> []) \<and>
      (\<forall>i r. DAList.lookup (tabStats (onStorageChanged changes ''local'' s)) i = Some r \<longrightarrow>
         (\<exists>ps. newValue c = Some ps \<and> (i, r) \<in> set ps)) \<and>
      (\<forall>ps i r. newValue c = Some ps \<and> distinct (map fst ps) \<and> (i, r) \<in> set ps \<longrightarrow>
         DAList.lookup (tabStats (onStorageChanged changes ''local'' s)) i = Some r)) \<and>
   (ch_downloadStats changes = Some d \<longrightarrow>
      DAList.lookup (downloadStats (onStorageChanged changes ''local'' s)) =
        map_of (rev (case newValue d of Some ps \<Rightarrow> ps | None \<Rightarrow> [])) \<and>
      dom (DAList.lookup (downloadStats (onStorageChanged changes ''local'' s))) =
        fst ` set (case newValue d of Some ps \<Rightarrow> ps | None \<Rightarrow> []) \<and>
      (\<forall>i r. DAList.lookup (downloadStats (onStorageChanged changes ''local'' s)) i = Some r \<longrightarrow>
         (\<exists>ps. newValue d = Some ps \<and> (i, r) \<in> set ps)) \<and>
      (\<forall>ps i r. newValue d = Some ps \<and> distinct (map fst ps) \<and> (i, r) \<in> set ps \<longrightarrow>
         DAList.lookup (downloadStats (onStorageChanged changes ''local'' s)) i = Some r))"
proof -
  have t: "ch_tabStats changes = Some c \<Longrightarrow>
      DAList.lookup (tabStats (onStorageChanged changes ''local'' s)) =
        map_of (rev (case newValue c of Some ps \<Rightarrow> ps | None \<Rightarrow> []))"
    by (simp add: onStorageChanged_def Let_def lookup_new_Map split: option.splits)
  have d: "ch_downloadStats changes = Some d \<Longrightarrow>
      DAList.lookup (downloadStats (onStorageChanged changes ''local'' s)) =
        map_of (rev (case newValue d of Some ps \<Rightarrow> ps | None \<Rightarrow> []))"
    by (simp add: onStorageChanged_def Let_def lookup_new_Map split: option.splits)
  have mem: "\<And>(ps :: (int \<times> 'x) list) i r. map_of (rev ps) i = Some r \<Longrightarrow> (i, r) \<in> set ps"
    by (drule map_of_SomeD) simp
  have dist: "\<And>(ps :: (int \<times> 'x) list) i r. distinct (map fst ps) \<Longrightarrow> (i, r) \<in> set ps \<Longrightarrow>
      map_of (rev ps) i = Some r"
    by (rule map_of_is_SomeI) (simp_all add: distinct_rev rev_map [symmetric])
  show ?thesis
  proof (intro conjI impI)
    assume c: "ch_tabStats changes = Some c"
    show "DAList.lookup (tabStats (onStorageChanged changes ''local'' s)) =
        map_of (rev (case newValue c of Some ps \<Rightarrow> ps | None \<Rightarrow> []))"
      by (rule t [OF c])
    show "dom (DAList.lookup (tabStats (onStorageChanged changes ''local'' s))) =
        fst ` set (case newValue c of Some ps \<Rightarrow> ps | None \<Rightarrow> [])"
      by (simp add: t [OF c] dom_map_of_conv_image_fst)
    show "\<forall>i r. DAList.lookup (tabStats (onStorageChanged changes ''local'' s)) i = Some r \<longrightarrow>
         (\<exists>ps. newValue c = Some ps \<and> (i, r) \<in> set ps)"
      unfolding t [OF c] by (cases "newValue c") (auto dest: mem)
    show "\<forall>ps i r. newValue c = Some ps \<and> distinct (map fst ps) \<and> (i, r) \<in> set ps \<longrightarrow>
         DAList.lookup (tabStats (onStorageChanged changes ''local'' s)) i = Some r"
      unfolding t [OF c] by (auto intro: dist)
  next
    assume c: "ch_downloadStats changes = Some d"
    show "DAList.lookup (downloadStats (onStorageChanged changes ''local'' s)) =
        map_of (rev (case newValue d of Some ps \<Rightarrow> ps | None \<Rightarrow> []))"
      by (rule d [OF c])
    show "dom (DAList.lookup (downloadStats (onStorageChanged changes ''local'' s))) =
        fst ` set (case newValue d of Some ps \<Rightarrow> ps | None \<Rightarrow> [])"
      by (simp add: d [OF c] dom_map_of_conv_image_fst)
    show "\<forall>i r. DAList.lookup (downloadStats (onStorageChanged changes ''local'' s)) i = Some r \<longrightarrow>
         (\<exists>ps. newValue d = Some ps \<and> (i, r) \<in> set ps)"
      unfolding d [OF c] by (cases "newValue d") (auto dest: mem)
    show "\<forall>ps i r. newValue d = Some ps \<and> distinct (map fst ps) \<and> (i, r) \<in> set ps \<longrightarrow>
         DAList.lookup (downloadStats (onStorageChanged changes ''local'' s)) i = Some r"
      unfolding d [OF c] by (auto intro: dist)
  qed
qed

theorem onStorageChanged_replaces_store_witness:
  "DAList.lookup (tabStats (onStorageChanged
      \<lparr>ch_tabStats = Some \<lparr>oldValue = None, newValue = Some [(7, empty_tab_stats\<lparr>t_id := Some 7\<rparr>)]\<rparr>,
       ch_downloadStats = Some \<lparr>oldValue = None, newValue = None\<rparr>\<rparr> ''local''
      (new_manager\<lparr>tabStats := DAList.update 3 empty_tab_stats DAList.empty,
         downloadStats := DAList.update 4 empty_download_stats DAList.empty\<rparr>))) 7
     = Some (empty_tab_stats\<lparr>t_id := Some 7\<rparr>) \<and>
   DAList.lookup (tabStats (onStorageChanged
      \<lparr>ch_tabStats = Some \<lparr>oldValue = None, newValue = Some [(7, empty_tab_stats\<lparr>t_id := Some 7\<rparr>)]\<rparr>,
       ch_downloadStats = Some \<lparr>oldValue = None, newValue = None\<rparr>\<rparr> ''local''
      (new_manager\<lparr>tabStats := DAList.update 3 empty_tab_stats DAList.empty,
         downloadStats := DAList.update 4 empty_download_stats DAList.empty\<rparr>))) 3 = None \<and>
   DAList.lookup (downloadStats (onStorageChanged
      \<lparr>ch_tabStats = Some \<lparr>oldValue = None, newValue = Some [(7, empty_tab_stats\<lparr>t_id := Some 7\<rparr>)]\<rparr>,
       ch_downloadStats = Some \<lparr>oldValue = None, newValue = None\<rparr>\<rparr> ''local''
      (new_manager\<lparr>tabStats := DAList.update 3 empty_tab_stats DAList.empty,
         downloadStats := DAList.update 4 empty_download_stats DAList.empty\<rparr>))) 4 = None"
  using onStorageChanged_replaces_store [of
      "\<lparr>ch_tabStats = Some \<lparr>oldValue = None, newValue = Some [(7, empty_tab_stats\<lparr>t_id := Some 7\<rparr>)]\<rparr>,
       ch_downloadStats = Some \<lparr>oldValue = None, newValue = None\<rparr>\<rparr>"
      "\<lparr>oldValue = None, newValue = Some [(7, empty_tab_stats\<lparr>t_id := Some 7\<rparr>)]\<rparr>"
      "new_manager\<lparr>tabStats := DAList.update 3 empty_tab_stats DAList.empty,
         downloadStats := DAList.update 4 empty_download_stats DAList.empty\<rparr>"
      "\<lparr>oldValue = None, newValue = None\<rparr>"]
  by simp

lemma onStorageChanged_other_area:
  "namespace \<noteq> ''local'' \<Longrightarrow> onStorageChanged changes namespace s = s"
  by (simp add: onStorageChanged_def)

section \<open>Records without a timestamp\<close>

lemma tab_never_expired:
  "t_createdAt r = Undefined \<Longrightarrow> t_lastSeen r = Undefined \<Longrightarrow> \<not> tab_expired now r"
  by (simp add: tab_expired_def js_or_def js_sub_def js_gt_def)

lemma lookup_cleanups_untimed:
  "DAList.lookup (tabStats s) i = Some r \<Longrightarrow> t_createdAt r = Undefined \<Longrightarrow>
   t_lastSeen r = Undefined \<Longrightarrow>
   DAList.lookup (tabStats (fold cleanupOldStats nows s)) i = Some r"
proof (induction nows arbitrary: s)
  case Nil
  then show ?case by simp
next
  case (Cons now nows)
  have "DAList.lookup (tabStats (cleanupOldStats now s)) i = Some r"
    using Cons.prems by (simp add: lookup_cleanup_tabs tab_never_expired)
  then show ?case
    using Cons.IH Cons.prems by simp
qed

text \<open>
  Claim C9. When \<^verbatim>\<open>onTabUpdated\<close> (status \<^verbatim>\<open>complete\<close>) finds no record for the tab,
  the record it creates has neither \<^verbatim>\<open>createdAt\<close> nor \<^verbatim>\<open>lastSeen\<close>; the age that
  \<^verbatim>\<open>cleanupOldStats\<close> computes for it is \<^verbatim>\<open>NaN\<close>, the comparison with 24 hours is
  false at every time, and the record is still there after any number of cleanups.
\<close>

theorem untimed_tab_never_evicted:
  "DAList.lookup (tabStats s) tabId = None \<longrightarrow>
   (\<exists>r. DAList.lookup (tabStats (onTabUpdated now ok tabId (Some ''complete'') tb s)) tabId = Some r \<and>
        t_createdAt r = Undefined \<and> t_lastSeen r = Undefined \<and>
        js_sub (Num now') (js_or (t_lastSeen r) (t_createdAt r)) = NaN \<and>
        \<not> js_gt (js_sub (Num now') (js_or (t_lastSeen r) (t_createdAt r))) (Num (24 * 60 * 60 * 1000)) \<and>
        DAList.lookup
          (tabStats (fold cleanupOldStats nows (onTabUpdated now ok tabId (Some ''complete'') tb s)))
          tabId = Some r)"
proof
  assume none: "DAList.lookup (tabStats s) tabId = None"
  let ?s' = "onTabUpdated now ok tabId (Some ''complete'') tb s"
  let ?r = "empty_tab_stats\<lparr>t_id := Some tabId, t_title := tab_title tb, t_url := tab_url tb,
              t_lastUpdated := Num now\<rparr>"
  have look: "DAList.lookup (tabStats ?s') tabId = Some ?r"
    using none by (simp add: onTabUpdated_def tab_or_empty_def)
  have c: "t_createdAt ?r = Undefined" and l: "t_lastSeen ?r = Undefined"
    by (simp_all add: empty_tab_stats_def)
  have "DAList.lookup (tabStats (fold cleanupOldStats nows ?s')) tabId = Some ?r"
    by (rule lookup_cleanups_untimed [OF look c l])
  with look c l show "\<exists>r. DAList.lookup (tabStats ?s') tabId = Some r \<and>
        t_createdAt r = Undefined \<and> t_lastSeen r = Undefined \<and>
        js_sub (Num now') (js_or (t_lastSeen r) (t_createdAt r)) = NaN \<and>
        \<not> js_gt (js_sub (Num now') (js_or (t_lastSeen r) (t_createdAt r))) (Num (24 * 60 * 60 * 1000)) \<and>
        DAList.lookup (tabStats (fold cleanupOldStats nows ?s')) tabId = Some r"
    by (intro exI [of _ ?r]) (simp add: js_or_def js_sub_def js_gt_def)
qed

theorem untimed_tab_never_evicted_witness:
  "DAList.lookup (tabStats new_manager) 9 = None \<and>
   (\<exists>r. DAList.lookup
          (tabStats (fold cleanupOldStats [1800000000000, 1900000000000]
             (onTabUpdated 1700000000000 True 9 (Some ''complete'')
                \<lparr>tab_id = 9, tab_title = Some ''x'', tab_url = None\<rparr> new_manager))) 9 = Some r)"
  using untimed_tab_never_evicted [of new_manager 9 1700000000000 True
      "\<lparr>tab_id = 9, tab_title = Some ''x'', tab_url = None\<rparr>" 0 "[1800000000000, 1900000000000]"]
  by (auto simp: new_manager_def)

section \<open>The CPU estimate\<close>

lemma cpu_stage_range:
  "has_system_cpu h \<Longrightarrow> cpu_stage h rnd stats = Some stats1 \<Longrightarrow>
   \<exists>c. cpu stats1 = Num c \<and> 5 \<le> c \<and> c \<le> 90"
  by (auto simp: cpu_stage_def Let_def Math_min_def Math_max_def split: outcome.splits if_splits)

lemma cpu_memory_stage: "memory_stage h stats1 = Some stats2 \<Longrightarrow> cpu stats2 = cpu stats1"
  by (auto simp: memory_stage_def Let_def split: outcome.splits if_splits)

lemma fallback_cpu_range:
  assumes "0 \<le> rnd_cpu" "rnd_cpu < 1"
  shows "\<exists>c. Math_floor (Num (rnd_cpu * 60 + 20)) = Num c \<and> 5 \<le> c \<and> c \<le> 90"
proof -
  have "20 \<le> rnd_cpu * 60 + 20" and "rnd_cpu * 60 + 20 < 80"
    using assms by simp_all
  then have "20 \<le> \<lfloor>rnd_cpu * 60 + 20\<rfloor>" and "\<lfloor>rnd_cpu * 60 + 20\<rfloor> < 80"
    by (simp_all add: le_floor_iff floor_less_iff)
  then have "5 \<le> (of_int \<lfloor>rnd_cpu * 60 + 20\<rfloor> :: real)" and "(of_int \<lfloor>rnd_cpu * 60 + 20\<rfloor> :: real) \<le> 90"
    by linarith+
  then show ?thesis by (simp add: Math_floor_def)
qed

text \<open>
  Claim C4. When the host has \<^verbatim>\<open>chrome.system.cpu\<close>, the \<^verbatim>\<open>cpu\<close> value returned by
  \<^verbatim>\<open>getSystemStats\<close> is a number between 5 and 90, for every list of tabs and of
  downloads in progress, every value of the noise and every outcome of the host calls
  (the \<^verbatim>\<open>Math.random()\<close> value of the fallback being in \<open>[0, 1)\<close>).
\<close>

theorem getSystemStats_cpu_range:
  assumes "has_system_cpu h" and "0 \<le> rnd_cpu" and "rnd_cpu < 1"
  shows "\<exists>c. cpu (getSystemStats h now rnd rnd_cpu rnd_mem) = Num c \<and> 5 \<le> c \<and> c \<le> 90"
proof (cases "cpu_stage h rnd \<lparr>cpu = Num 0, memory = Num 0, timestamp = now\<rparr>")
  case None
  then show ?thesis
    using fallback_cpu_range [OF assms(2,3)] by (simp add: getSystemStats_def)
next
  case (Some stats1)
  show ?thesis
  proof (cases "memory_stage h stats1")
    case None
    then show ?thesis
      using Some fallback_cpu_range [OF assms(2,3)] by (simp add: getSystemStats_def)
  next
    case (Some stats2)
    then show ?thesis
      using \<open>cpu_stage h rnd \<lparr>cpu = Num 0, memory = Num 0, timestamp = now\<rparr> = Some stats1\<close>
        cpu_stage_range [OF assms(1)] cpu_memory_stage
      by (simp add: getSystemStats_def)
  qed
qed

theorem getSystemStats_cpu_range_witness:
  "has_system_cpu \<lparr>has_system_cpu = True, cpu_getInfo = Resolved (),
      tabs_query = Resolved (replicate 50 \<lparr>tab_id = 1, tab_title = None, tab_url = None\<rparr>),
      downloads_in_progress = Resolved [], has_system_memory = False,
      memory_getInfo = Rejected\<rparr> \<and>
   (0 :: real) \<le> 1 / 2 \<and> (1 / 2 :: real) < 1 \<and>
   (\<exists>c. cpu (getSystemStats \<lparr>has_system_cpu = True, cpu_getInfo = Resolved (),
      tabs_query = Resolved (replicate 50 \<lparr>tab_id = 1, tab_title = None, tab_url = None\<rparr>),
      downloads_in_progress = Resolved [], has_system_memory = False,
      memory_getInfo = Rejected\<rparr> 0 (1 / 4) (1 / 2) (1 / 2)) = Num c \<and> 5 \<le> c \<and> c \<le> 90)"
  using getSystemStats_cpu_range [of "\<lparr>has_system_cpu = True, cpu_getInfo = Resolved (),
      tabs_query = Resolved (replicate 50 \<lparr>tab_id = 1, tab_title = None, tab_url = None\<rparr>),
      downloads_in_progress = Resolved [], has_system_memory = False,
      memory_getInfo = Rejected\<rparr>" "1 / 2" 0 "1 / 4" "1 / 2"]
  by simp

lemma getSystemStats_cpu_estimate:
  assumes "has_system_cpu h" and "cpu_getInfo h = Resolved u" and "tabs_query h = Resolved tabs"
    and "downloads_in_progress h = Resolved downloads"
    and "\<not> has_system_memory h \<or> memory_getInfo h \<noteq> Rejected"
  shows "cpu (getSystemStats h now rnd rnd_cpu rnd_mem) =
           Num (min 90 (max 5 (real (length tabs) * 2 + real (length downloads) * 5 + rnd * 20)))"
  using assms
  by (auto simp: getSystemStats_def cpu_stage_def memory_stage_def Let_def Math_min_def Math_max_def
        split: outcome.splits)

lemma getSystemStats_cpu_without_api:
  "\<not> has_system_cpu h \<Longrightarrow> \<not> has_system_memory h \<or> memory_getInfo h \<noteq> Rejected \<Longrightarrow>
   cpu (getSystemStats h now rnd rnd_cpu rnd_mem) = Num 0"
  by (auto simp: getSystemStats_def cpu_stage_def memory_stage_def Let_def split: outcome.splits)

section \<open>Order of the download list\<close>

lemma set_insert_sorted [simp]: "set (insert_sorted cmp x ys) = insert x (set ys)"
  by (induction ys) auto

lemma mset_insert_sorted [simp]: "mset (insert_sorted cmp x ys) = add_mset x (mset ys)"
  by (induction ys) auto

lemma mset_Array_sort [simp]: "mset (Array_sort cmp xs) = mset xs"
  by (induction xs) (simp_all add: Array_sort_def)

lemma set_Array_sort [simp]: "set (Array_sort cmp xs) = set xs"
  by (induction xs) (simp_all add: Array_sort_def)

lemma length_Array_sort [simp]: "length (Array_sort cmp xs) = length xs"
  using mset_Array_sort [of cmp xs] by (metis size_mset)

lemma localeCompare_le: "localeCompare a b \<le> 0 \<longleftrightarrow> a \<le> b"
  by (auto simp: localeCompare_def)

lemma sorted_insert_sorted:
  assumes "sorted_wrt (\<lambda>a b. key b \<le> key a) ys"
  shows "sorted_wrt (\<lambda>a b. (key b :: string) \<le> key a)
           (insert_sorted (\<lambda>a b. localeCompare (key b) (key a)) x ys)"
  using assms
proof (induction ys)
  case Nil
  then show ?case by simp
next
  case (Cons y ys)
  show ?case
  proof (cases "key y \<le> key x")
    case True
    then show ?thesis
      using Cons.prems by (auto simp: localeCompare_le)
  next
    case False
    then have "key x \<le> key y" by simp
    then show ?thesis
      using False Cons by (auto simp: localeCompare_le)
  qed
qed

lemma sorted_Array_sort:
  "sorted_wrt (\<lambda>a b. (key b :: string) \<le> key a)
     (Array_sort (\<lambda>a b. localeCompare (key b) (key a)) xs)"
  by (induction xs) (simp_all add: Array_sort_def sorted_insert_sorted)

lemma is_digit_code: "is_digit c \<longleftrightarrow> 48 \<le> (of_char c :: nat) \<and> (of_char c :: nat) \<le> 57"
  by (simp add: is_digit_def less_eq_char_def)

lemma char_less_code: "c < d \<longleftrightarrow> (of_char c :: nat) < of_char d"
  by (simp add: less_char_def)

lemma digits_foldl:
  "foldl (\<lambda>a c. 10 * a + (of_char c - 48)) a ds =
     a * 10 ^ length ds + foldl (\<lambda>a c. 10 * a + (of_char c - 48)) (0 :: nat) ds"
proof (induction ds arbitrary: a)
  case Nil
  then show ?case by simp
next
  case (Cons d ds)
  show ?case
    using Cons.IH [of "10 * a + (of_char d - 48)"] Cons.IH [of "of_char d - 48"]
    by (simp add: algebra_simps)
qed

lemma digits_value_Nil [simp]: "digits_value [] = 0"
  by (simp add: digits_value_def)

lemma digits_value_Cons:
  "digits_value (d # ds) = (of_char d - 48) * 10 ^ length ds + digits_value ds"
  using digits_foldl [of "of_char d - 48" ds] by (simp add: digits_value_def)

lemma digits_value_bound:
  "\<forall>c \<in> set ds. is_digit c \<Longrightarrow> digits_value ds < 10 ^ length ds"
proof (induction ds)
  case Nil
  then show ?case by simp
next
  case (Cons d ds)
  then have d: "(of_char d :: nat) - 48 \<le> 9" and rest: "digits_value ds < 10 ^ length ds"
    by (auto simp: is_digit_code)
  have "(of_char d - 48) * 10 ^ length ds + digits_value ds < (of_char d - 48) * 10 ^ length ds + 10 ^ length ds"
    using rest by simp
  also have "\<dots> = (of_char d - 48 + 1) * 10 ^ length ds" by (simp add: algebra_simps)
  also have "\<dots> \<le> 10 * 10 ^ length ds"
    using d by (intro mult_right_mono) simp_all
  finally show ?case by (simp add: digits_value_Cons)
qed

lemma digits_le_iff:
  assumes "length xs = length ys" "\<forall>c \<in> set xs. is_digit c" "\<forall>c \<in> set ys. is_digit c"
  shows "xs \<le> ys \<longleftrightarrow> digits_value xs \<le> digits_value ys"
  using assms
proof (induction xs ys rule: list_induct2)
  case Nil
  then show ?case by simp
next
  case (Cons x xs y ys)
  let ?n = "length xs"
  have dx: "is_digit x" and dy: "is_digit y" using Cons.prems by simp_all
  have bx: "digits_value xs < 10 ^ ?n" and by': "digits_value ys < 10 ^ ?n"
    using Cons.prems Cons.hyps digits_value_bound [of xs] digits_value_bound [of ys] by simp_all
  have IH: "xs \<le> ys \<longleftrightarrow> digits_value xs \<le> digits_value ys"
    using Cons by simp
  let ?a = "(of_char x :: nat) - 48" and ?b = "(of_char y :: nat) - 48"
  have "x = y \<longleftrightarrow> (of_char x :: nat) = of_char y"
    by simp
  then have ord: "x < y \<longleftrightarrow> ?a < ?b" "x = y \<longleftrightarrow> ?a = ?b"
    using dx dy unfolding is_digit_code char_less_code by linarith+
  have lt: "?a < ?b \<Longrightarrow> ?a * 10 ^ ?n + digits_value xs < ?b * 10 ^ ?n + digits_value ys"
  proof -
    assume "?a < ?b"
    then have "?a + 1 \<le> ?b" by simp
    then have "(?a + 1) * 10 ^ ?n \<le> ?b * 10 ^ ?n" by (rule mult_right_mono) simp
    moreover have "?a * 10 ^ ?n + digits_value xs < (?a + 1) * 10 ^ ?n"
      using bx by (simp add: algebra_simps)
    ultimately show ?thesis by linarith
  qed
  have gt: "?b < ?a \<Longrightarrow> ?b * 10 ^ ?n + digits_value ys < ?a * 10 ^ ?n + digits_value xs"
  proof -
    assume "?b < ?a"
    then have "?b + 1 \<le> ?a" by simp
    then have "(?b + 1) * 10 ^ ?n \<le> ?a * 10 ^ ?n" by (rule mult_right_mono) simp
    moreover have "?b * 10 ^ ?n + digits_value ys < (?b + 1) * 10 ^ ?n"
      using by' by (simp add: algebra_simps)
    ultimately show ?thesis by linarith
  qed
  consider "?a < ?b" | "?a = ?b" | "?b < ?a" by linarith
  then show ?case
  proof cases
    case 1
    with lt [OF 1] ord show ?thesis
      using Cons.hyps by (simp add: digits_value_Cons)
  next
    case 2
    with ord IH show ?thesis
      using Cons.hyps by (simp add: digits_value_Cons)
  next
    case 3
    with gt [OF 3] ord show ?thesis
      using Cons.hyps by (auto simp: digits_value_Cons)
  qed
qed

lemma same_shape_digits:
  "same_shape a b \<Longrightarrow>
     length (filter is_digit a) = length (filter is_digit b) \<and>
     (a \<le> b \<longleftrightarrow> filter is_digit a \<le> filter is_digit b)"
  by (induction a b rule: same_shape.induct) auto

lemma same_shape_common:
  "same_shape a t \<Longrightarrow> same_shape b t \<Longrightarrow> same_shape a b"
proof (induction a t arbitrary: b rule: same_shape.induct)
  case 1
  then show ?case by (cases b) simp_all
next
  case (2 x xs y ys)
  then show ?case by (cases b) (auto split: if_splits)
qed simp_all

lemma iso_utc_order:
  assumes "iso_utc a" "iso_utc b"
  shows "a \<le> b \<longleftrightarrow> iso_key a \<le> iso_key b"
proof -
  have sh: "same_shape a b"
    using assms unfolding iso_utc_def by (rule same_shape_common)
  from same_shape_digits [OF sh]
  have len: "length (filter is_digit a) = length (filter is_digit b)"
    and le: "a \<le> b \<longleftrightarrow> filter is_digit a \<le> filter is_digit b" by simp_all
  have "filter is_digit a \<le> filter is_digit b \<longleftrightarrow> iso_key a \<le> iso_key b"
    unfolding iso_key_def by (rule digits_le_iff [OF len]) simp_all
  with le show ?thesis by simp
qed

lemma e_startTime_enhance [simp]: "e_startTime (enhance s d) = di_startTime (fst d)"
  by (cases d) (simp add: enhance_def Let_def)

text \<open>
  Claim C3. When the download listing resolves, \<^verbatim>\<open>getEnhancedDownloadStats\<close> returns
  a permutation of the enhanced downloads in which, for every two adjacent elements,
  the start time of the first is at or after the start time of the second: in the order
  of the start-time strings that the comparison function uses, and, when the start
  times are timestamps of the host's format, in time.
\<close>

theorem getEnhancedDownloadStats_sorted:
  "\<exists>ys. getEnhancedDownloadStats (Resolved downloads) s = Resolved ys \<and>
        mset ys = mset (map (enhance s) downloads) \<and>
        (\<forall>i. Suc i < length ys \<longrightarrow> e_startTime (ys ! Suc i) \<le> e_startTime (ys ! i)) \<and>
        ((\<forall>d \<in> set downloads. iso_utc (di_startTime (fst d))) \<longrightarrow>
           (\<forall>i. Suc i < length ys \<longrightarrow>
              iso_key (e_startTime (ys ! Suc i)) \<le> iso_key (e_startTime (ys ! i))))"
proof -
  let ?ys = "Array_sort (\<lambda>a b. localeCompare (e_startTime b) (e_startTime a))
               (map (enhance s) downloads)"
  have res: "getEnhancedDownloadStats (Resolved downloads) s = Resolved ?ys"
    by (simp add: getEnhancedDownloadStats_def)
  have perm: "mset ?ys = mset (map (enhance s) downloads)"
    by simp
  have sorted: "sorted_wrt (\<lambda>a b. e_startTime b \<le> e_startTime a) ?ys"
    by (rule sorted_Array_sort)
  have adj: "\<And>i. Suc i < length ?ys \<Longrightarrow> e_startTime (?ys ! Suc i) \<le> e_startTime (?ys ! i)"
    using sorted by (simp add: sorted_wrt_iff_nth_less)
  have chron: "\<And>i. \<forall>d \<in> set downloads. iso_utc (di_startTime (fst d)) \<Longrightarrow> Suc i < length ?ys \<Longrightarrow>
      iso_key (e_startTime (?ys ! Suc i)) \<le> iso_key (e_startTime (?ys ! i))"
  proof -
    fix i
    assume iso: "\<forall>d \<in> set downloads. iso_utc (di_startTime (fst d))" and i: "Suc i < length ?ys"
    have "\<And>e. e \<in> set ?ys \<Longrightarrow> iso_utc (e_startTime e)"
      using iso by auto
    then have "iso_utc (e_startTime (?ys ! Suc i))" and "iso_utc (e_startTime (?ys ! i))"
      using i by (simp_all del: set_Array_sort length_Array_sort)
    then show "iso_key (e_startTime (?ys ! Suc i)) \<le> iso_key (e_startTime (?ys ! i))"
      using adj [OF i] by (simp add: iso_utc_order)
  qed
  show ?thesis
    using res perm adj chron by blast
qed

theorem getEnhancedDownloadStats_sorted_witness:
  "iso_utc ''2024-01-15T10:30:00.000Z'' \<and> iso_utc ''2024-03-02T08:00:00.250Z'' \<and>
   (\<exists>ys. getEnhancedDownloadStats (Resolved
              [(\<lparr>di_id = 1, di_filename = None, di_url = None, di_state = None,
                  di_bytesReceived = Num 0, di_totalBytes = Num 0,
                  di_startTime = ''2024-01-15T10:30:00.000Z''\<rparr>, 0, 0),
               (\<lparr>di_id = 2, di_filename = None, di_url = None, di_state = None,
                  di_bytesReceived = Num 0, di_totalBytes = Num 0,
                  di_startTime = ''2024-03-02T08:00:00.250Z''\<rparr>, 0, 0)]) new_manager = Resolved ys \<and>
      length ys = 2 \<and>
      e_startTime (ys ! Suc 0) \<le> e_startTime (ys ! 0) \<and>
      iso_key (e_startTime (ys ! Suc 0)) \<le> iso_key (e_startTime (ys ! 0)))"
proof -
  define ds where "ds = [(\<lparr>di_id = 1, di_filename = None, di_url = None, di_state = None,
                  di_bytesReceived = Num 0, di_totalBytes = Num 0,
                  di_startTime = ''2024-01-15T10:30:00.000Z''\<rparr>, 0 :: real, 0 :: real),
               (\<lparr>di_id = 2, di_filename = None, di_url = None, di_state = None,
                  di_bytesReceived = Num 0, di_totalBytes = Num 0,
                  di_startTime = ''2024-03-02T08:00:00.250Z''\<rparr>, 0, 0)]"
  have iso1: "iso_utc ''2024-01-15T10:30:00.000Z''" and iso2: "iso_utc ''2024-03-02T08:00:00.250Z''"
    by (simp_all add: iso_utc_def is_digit_def)
  then have iso: "\<forall>d \<in> set ds. iso_utc (di_startTime (fst d))"
    unfolding ds_def by simp
  from getEnhancedDownloadStats_sorted [of ds new_manager]
  obtain ys where ys: "getEnhancedDownloadStats (Resolved ds) new_manager = Resolved ys"
    and perm: "mset ys = mset (map (enhance new_manager) ds)"
    and adj: "\<forall>i. Suc i < length ys \<longrightarrow> e_startTime (ys ! Suc i) \<le> e_startTime (ys ! i)"
    and chron: "(\<forall>d \<in> set ds. iso_utc (di_startTime (fst d))) \<longrightarrow>
           (\<forall>i. Suc i < length ys \<longrightarrow>
              iso_key (e_startTime (ys ! Suc i)) \<le> iso_key (e_startTime (ys ! i)))"
    by blast
  have "size (mset ys) = size (mset (map (enhance new_manager) ds))"
    by (simp only: perm)
  then have len: "length ys = 2"
    by (simp add: ds_def)
  from chron iso have c: "\<forall>i. Suc i < length ys \<longrightarrow>
      iso_key (e_startTime (ys ! Suc i)) \<le> iso_key (e_startTime (ys ! i))" ..
  have "e_startTime (ys ! Suc 0) \<le> e_startTime (ys ! 0)"
    and "iso_key (e_startTime (ys ! Suc 0)) \<le> iso_key (e_startTime (ys ! 0))"
    using adj c len by simp_all
  with ys len have "\<exists>ys. getEnhancedDownloadStats (Resolved ds) new_manager = Resolved ys \<and>
      length ys = 2 \<and>
      e_startTime (ys ! Suc 0) \<le> e_startTime (ys ! 0) \<and>
      iso_key (e_startTime (ys ! Suc 0)) \<le> iso_key (e_startTime (ys ! 0))"
    by (intro exI conjI)
  then have "iso_utc ''2024-01-15T10:30:00.000Z'' \<and> iso_utc ''2024-03-02T08:00:00.250Z'' \<and>
     (\<exists>ys. getEnhancedDownloadStats (Resolved ds) new_manager = Resolved ys \<and>
      length ys = 2 \<and>
      e_startTime (ys ! Suc 0) \<le> e_startTime (ys ! 0) \<and>
      iso_key (e_startTime (ys ! Suc 0)) \<le> iso_key (e_startTime (ys ! 0)))"
    using iso1 iso2 by (intro conjI)
  then show ?thesis unfolding ds_def .
qed

section \<open>Progress\<close>

lemma round_half_even_error: "\<bar>of_int (round_half_even y) - y\<bar> \<le> 1 / 2"
  unfolding round_half_even_def by (auto split: if_splits)

lemma double_ulp_pos: "0 < double_ulp x"
  by (simp add: double_ulp_def)

lemma double_ulp_le:
  fixes k :: int
  assumes "x \<noteq> 0" "\<bar>x\<bar> < 2 powr of_int k" "- 1021 \<le> k"
  shows "double_ulp x \<le> 2 powr of_int (k - 53)"
proof -
  have "log 2 \<bar>x\<bar> < of_int k"
    using assms by (simp add: log_less_iff)
  then have "\<lfloor>log 2 \<bar>x\<bar>\<rfloor> < k"
    by (simp add: floor_less_iff)
  then have "max \<lfloor>log 2 \<bar>x\<bar>\<rfloor> (- 1022) - 52 \<le> k - 53"
    using assms(3) by simp
  then show ?thesis
    unfolding double_ulp_def by (simp only: powr_le_cancel_iff of_int_le_iff)
qed

lemma to_double_error:
  fixes k :: int
  assumes "x \<noteq> 0" "\<bar>x\<bar> < 2 powr of_int k" "- 1021 \<le> k" "k \<le> 1023"
  shows "\<exists>r. to_double x = Num r \<and> \<bar>r - x\<bar> \<le> 2 powr of_int (k - 54)"
proof -
  let ?u = "double_ulp x"
  let ?r = "of_int (round_half_even (x / ?u)) * ?u"
  have u: "0 < ?u" by (rule double_ulp_pos)
  have ule: "?u \<le> 2 powr of_int (k - 53)" by (rule double_ulp_le [OF assms(1-3)])
  have "?r - x = (of_int (round_half_even (x / ?u)) - x / ?u) * ?u"
    using u by (simp add: field_simps)
  then have "\<bar>?r - x\<bar> = \<bar>of_int (round_half_even (x / ?u)) - x / ?u\<bar> * \<bar>?u\<bar>"
    by (simp only: abs_mult)
  also have "\<dots> = \<bar>of_int (round_half_even (x / ?u)) - x / ?u\<bar> * ?u"
    using u by simp
  also have "\<dots> \<le> 1 / 2 * ?u"
    using round_half_even_error [of "x / ?u"] u by (intro mult_right_mono) simp_all
  also have "\<dots> \<le> 1 / 2 * 2 powr of_int (k - 53)"
    using ule by simp
  also have "\<dots> = 2 powr of_int (k - 54)"
    by (simp add: powr_diff)
  finally have err: "\<bar>?r - x\<bar> \<le> 2 powr of_int (k - 54)" .
  have "2 powr of_int (k - 54) \<le> (2 :: real) powr of_int k"
    by (simp only: powr_le_cancel_iff of_int_le_iff)
  then have "\<bar>?r\<bar> < 2 * 2 powr of_int k"
    using err assms(2) by linarith
  also have "\<dots> \<le> 2 * 2 powr of_int 1023"
  proof -
    have "(2 :: real) powr of_int k \<le> 2 powr of_int 1023"
      using assms(4) by (simp only: powr_le_cancel_iff of_int_le_iff)
    then show ?thesis by linarith
  qed
  also have "\<dots> = 2 ^ 1024"
    by (simp add: powr_int)
  finally have "\<not> 2 ^ 1024 \<le> \<bar>?r\<bar>" by simp
  then have "to_double x = Num ?r"
    using assms(1) by (simp add: to_double_def Let_def)
  with err show ?thesis by blast
qed

lemma double_ulp_binade:
  fixes e :: int
  assumes "2 powr of_int e \<le> \<bar>x\<bar>" "\<bar>x\<bar> < 2 powr (of_int e + 1)" "- 1022 \<le> e"
  shows "double_ulp x = 2 powr of_int (e - 52)"
proof -
  have pos: "0 < \<bar>x\<bar>"
    using assms(1) by (smt (verit) powr_gt_zero)
  have "\<lfloor>log 2 \<bar>x\<bar>\<rfloor> = e"
    using assms(1,2) pos by (simp add: floor_log_eq_powr_iff)
  then show ?thesis
    using assms(3) by (simp add: double_ulp_def max_def)
qed

lemma to_double_binade:
  fixes e :: int
  assumes "2 powr of_int e \<le> \<bar>x\<bar>" "\<bar>x\<bar> < 2 powr (of_int e + 1)" "- 1022 \<le> e" "e \<le> 1022"
    and "round_half_even (x / 2 powr of_int (e - 52)) = n"
  shows "to_double x = Num (of_int n * 2 powr of_int (e - 52))"
proof -
  have nz: "x \<noteq> 0"
    using assms(1) by (smt (verit) powr_gt_zero)
  have u: "double_ulp x = 2 powr of_int (e - 52)"
    by (rule double_ulp_binade [OF assms(1-3)])
  have "\<bar>x\<bar> < 2 powr of_int (e + 1)"
    using assms(2) by simp
  from to_double_error [OF nz this] assms(3,4)
  obtain r where r: "to_double x = Num r" by auto
  then show ?thesis
    using nz assms(5) unfolding to_double_def Let_def u
    by (auto split: if_splits)
qed

lemma to_double_quarter: "to_double (1 / 4) = Num (1 / 4)"
  using to_double_binade [of "- 2" "1 / 4" 4503599627370496]
  by (simp add: powr_neg_numeral round_half_even_def)

lemma to_double_25: "to_double 25 = Num 25"
  using to_double_binade [of 4 25 7036874417766400]
  by (simp add: powr_neg_numeral round_half_even_def)

lemma to_double_7_25: "to_double (7 / 25) = Num (1261007895663739 / 2 ^ 52)"
  using to_double_binade [of "- 2" "7 / 25" 5044031582654956]
  by (simp add: powr_neg_numeral round_half_even_def)

lemma to_double_28: "to_double (1261007895663739 / 2 ^ 52 * 100) = Num (28 + 1 / 2 ^ 48)"
  using to_double_binade [of 4 "1261007895663739 / 2 ^ 52 * 100" 7881299347898369]
  by (simp add: powr_neg_numeral round_half_even_def)

lemma progress_50_200: "double_mul (double_div (Num 50) (Num 200)) (Num 100) = Num 25"
  by (simp add: double_mul_def double_div_def to_double_quarter to_double_25)

lemma progress_7_25:
  "double_mul (double_div (Num 7) (Num 25)) (Num 100) = Num (28 + 1 / 2 ^ 48)"
  using to_double_28 by (simp add: double_mul_def double_div_def to_double_7_25)

lemma progress_error:
  fixes b t :: real
  assumes "0 < b" "b \<le> t"
  shows "\<exists>p. double_mul (double_div (Num b) (Num t)) (Num 100) = Num p \<and>
             \<bar>p - b / t * 100\<bar> \<le> 1 / 2 ^ 45"
proof -
  let ?q = "b / t"
  have t: "0 < t" using assms by simp
  have q: "0 < ?q" "?q \<le> 1" using assms t by simp_all
  have qnz: "?q \<noteq> 0" using assms t by simp
  have "\<bar>?q\<bar> < 2 powr of_int 1" using q by simp
  from to_double_error [OF qnz this]
  obtain r1 where r1: "to_double ?q = Num r1" and e1: "\<bar>r1 - ?q\<bar> \<le> 2 powr of_int (1 - 54)"
    by auto
  have e1': "\<bar>r1 - ?q\<bar> \<le> 1 / 2 ^ 53"
    using e1 by (simp add: powr_neg_numeral)
  have dq: "double_div (Num b) (Num t) = Num r1"
    using t r1 by (simp add: double_div_def)
  show ?thesis
  proof (cases "r1 = 0")
    case True
    then have "double_mul (double_div (Num b) (Num t)) (Num 100) = Num 0"
      by (simp add: dq double_mul_def to_double_def)
    moreover have "\<bar>0 - ?q * 100\<bar> \<le> 1 / 2 ^ 45"
      using e1' True q by simp
    ultimately show ?thesis by blast
  next
    case False
    let ?x = "r1 * 100"
    have nz: "?x \<noteq> 0" using False by simp
    have "\<bar>r1\<bar> \<le> 1 + 1 / 2 ^ 53"
      using e1' q by linarith
    then have "\<bar>?x\<bar> < 2 powr of_int 7"
      by (simp add: abs_mult)
    from to_double_error [OF nz this]
    obtain r2 where r2: "to_double ?x = Num r2" and e2: "\<bar>r2 - ?x\<bar> \<le> 2 powr of_int (7 - 54)"
      by auto
    have e2': "\<bar>r2 - ?x\<bar> \<le> 1 / 2 ^ 47"
      using e2 by (simp add: powr_neg_numeral)
    have "double_mul (double_div (Num b) (Num t)) (Num 100) = Num r2"
      by (simp add: dq double_mul_def r2)
    moreover have "\<bar>r2 - ?q * 100\<bar> \<le> 1 / 2 ^ 45"
    proof -
      have "?x - ?q * 100 = (r1 - ?q) * 100"
        by (simp add: left_diff_distrib)
      then have "\<bar>?x - ?q * 100\<bar> = \<bar>r1 - ?q\<bar> * \<bar>100\<bar>"
        by (simp only: abs_mult)
      then have "\<bar>?x - ?q * 100\<bar> = \<bar>r1 - ?q\<bar> * 100"
        by simp
      then have "\<bar>?x - ?q * 100\<bar> \<le> 1 / 2 ^ 53 * 100"
        using e1' by simp
      then have "\<bar>r2 - ?q * 100\<bar> \<le> 1 / 2 ^ 47 + 1 / 2 ^ 53 * 100"
        using e2' by linarith
      then show ?thesis by simp
    qed
    ultimately show ?thesis by blast
  qed
qed

lemma e_progress_enhance:
  "e_progress (enhance s (download, now1, now2)) =
     (if truthy (js_and (di_bytesReceived download) (di_totalBytes download))
      then double_mul (double_div (di_bytesReceived download) (di_totalBytes download)) (Num 100)
      else Num 0)"
  by (simp add: enhance_def Let_def)

text \<open>
  Claim C8, as stated, fails: the progress is computed in double arithmetic, and for 7
  bytes of 25 the rounded quotient times 100, rounded, is \<open>28 + 2\<^sup>-\<^sup>4\<^sup>8\<close>
  (\<^verbatim>\<open>28.000000000000004\<close>), not 28.
\<close>

theorem progress_7_of_25_not_exact:
  "e_progress (enhance new_manager
      (\<lparr>di_id = 1, di_filename = None, di_url = None, di_state = Some ''in_progress'',
        di_bytesReceived = Num 7, di_totalBytes = Num 25,
        di_startTime = ''2024-01-15T10:30:00.000Z''\<rparr>, 0, 0)) = Num (28 + 1 / 2 ^ 48) \<and>
   Num (28 + 1 / 2 ^ 48) \<noteq> Num (7 / 25 * 100)"
  by (simp add: e_progress_enhance js_and_def progress_7_25)

text \<open>
  Claim C8, amended. The progress of an element is computed from the host's download
  item, in double arithmetic: it is exactly 25 for 50 bytes of 200; it is 0 whenever
  \<^verbatim>\<open>totalBytes\<close> or \<^verbatim>\<open>bytesReceived\<close> is falsy; and for \<open>0 < bytesReceived \<le>
  totalBytes\<close> it is a number within \<open>2\<^sup>-\<^sup>4\<^sup>5\<close> of \<open>bytesReceived / totalBytes * 100\<close>.
  The list returned is a permutation of the enhancements of the listed downloads, so
  every download gets its progress.
\<close>

theorem progress_of_download:
  "e_progress (enhance s (download\<lparr>di_bytesReceived := Num 50, di_totalBytes := Num 200\<rparr>, now1, now2))
     = Num 25 \<and>
   (\<not> truthy (di_totalBytes download) \<longrightarrow> e_progress (enhance s (download, now1, now2)) = Num 0) \<and>
   (\<not> truthy (di_bytesReceived download) \<longrightarrow>
      e_progress (enhance s (download, now1, now2)) = Num 0) \<and>
   (\<forall>b t. di_bytesReceived download = Num b \<and> di_totalBytes download = Num t \<and> 0 < b \<and> b \<le> t \<longrightarrow>
      (\<exists>p. e_progress (enhance s (download, now1, now2)) = Num p \<and>
           \<bar>p - b / t * 100\<bar> \<le> 1 / 2 ^ 45)) \<and>
   (\<exists>ys. getEnhancedDownloadStats (Resolved downloads) s = Resolved ys \<and>
         mset ys = mset (map (enhance s) downloads))"
proof (intro conjI allI impI)
  show "e_progress (enhance s (download\<lparr>di_bytesReceived := Num 50, di_totalBytes := Num 200\<rparr>, now1, now2))
     = Num 25"
    by (simp add: e_progress_enhance js_and_def progress_50_200)
next
  assume "\<not> truthy (di_totalBytes download)"
  then show "e_progress (enhance s (download, now1, now2)) = Num 0"
    by (simp add: e_progress_enhance js_and_def)
next
  assume "\<not> truthy (di_bytesReceived download)"
  then show "e_progress (enhance s (download, now1, now2)) = Num 0"
    by (simp add: e_progress_enhance js_and_def)
next
  fix b t
  assume h: "di_bytesReceived download = Num b \<and> di_totalBytes download = Num t \<and> 0 < b \<and> b \<le> t"
  then have "0 < b" and "b \<le> t" by simp_all
  from progress_error [OF this]
  obtain p where "double_mul (double_div (Num b) (Num t)) (Num 100) = Num p"
    and "\<bar>p - b / t * 100\<bar> \<le> 1 / 2 ^ 45" by blast
  moreover have "e_progress (enhance s (download, now1, now2)) =
      double_mul (double_div (Num b) (Num t)) (Num 100)"
    using h by (simp add: e_progress_enhance js_and_def)
  ultimately show "\<exists>p. e_progress (enhance s (download, now1, now2)) = Num p \<and>
      \<bar>p - b / t * 100\<bar> \<le> 1 / 2 ^ 45"
    by simp
next
  show "\<exists>ys. getEnhancedDownloadStats (Resolved downloads) s = Resolved ys \<and>
         mset ys = mset (map (enhance s) downloads)"
    by (simp add: getEnhancedDownloadStats_def)
qed

theorem progress_of_download_witness:
  "\<not> truthy (Num 0) \<and>
   e_progress (enhance new_manager
      (\<lparr>di_id = 2, di_filename = None, di_url = None, di_state = None,
        di_bytesReceived = Num 10, di_totalBytes = Num 0,
        di_startTime = ''2024-03-02T08:00:00.250Z''\<rparr>, 0, 0)) = Num 0 \<and>
   (0 :: real) < 7 \<and> (7 :: real) \<le> 25 \<and>
   (\<exists>p. e_progress (enhance new_manager
      (\<lparr>di_id = 3, di_filename = None, di_url = None, di_state = None,
        di_bytesReceived = Num 7, di_totalBytes = Num 25,
        di_startTime = ''2024-03-02T09:00:00.000Z''\<rparr>, 0, 0)) = Num p \<and>
        \<bar>p - 7 / 25 * 100\<bar> \<le> 1 / 2 ^ 45) \<and>
   (\<exists>ys. getEnhancedDownloadStats (Resolved
        [(\<lparr>di_id = 1, di_filename = None, di_url = None, di_state = None,
           di_bytesReceived = Num 50, di_totalBytes = Num 200,
           di_startTime = ''2024-01-15T10:30:00.000Z''\<rparr>, 0, 0),
         (\<lparr>di_id = 2, di_filename = None, di_url = None, di_state = None,
           di_bytesReceived = Num 10, di_totalBytes = Num 0,
           di_startTime = ''2024-03-02T08:00:00.250Z''\<rparr>, 0, 0)]) new_manager = Resolved ys \<and>
      mset (map e_progress ys) = {#Num 25, Num 0#})"
proof -
  define d1 where "d1 = \<lparr>di_id = 1, di_filename = None, di_url = None, di_state = None,
           di_bytesReceived = Num 50, di_totalBytes = Num 200,
           di_startTime = ''2024-01-15T10:30:00.000Z''\<rparr>"
  define d2 where "d2 = \<lparr>di_id = 2, di_filename = None, di_url = None, di_state = None,
        di_bytesReceived = Num 10, di_totalBytes = Num 0,
        di_startTime = ''2024-03-02T08:00:00.250Z''\<rparr>"
  define d3 where "d3 = \<lparr>di_id = 3, di_filename = None, di_url = None, di_state = None,
        di_bytesReceived = Num 7, di_totalBytes = Num 25,
        di_startTime = ''2024-03-02T09:00:00.000Z''\<rparr>"
  have d1': "d1 = d2\<lparr>di_id := 1, di_startTime := ''2024-01-15T10:30:00.000Z'',
      di_bytesReceived := Num 50, di_totalBytes := Num 200\<rparr>"
    by (simp add: d1_def d2_def)
  have p2: "e_progress (enhance new_manager (d2, 0, 0)) = Num 0"
    using progress_of_download [of new_manager d2 0 0 "[(d1, 0, 0), (d2, 0, 0)]"]
    by (simp add: d2_def)
  have p1: "e_progress (enhance new_manager (d1, 0, 0)) = Num 25"
    using progress_of_download [of new_manager
        "d2\<lparr>di_id := 1, di_startTime := ''2024-01-15T10:30:00.000Z''\<rparr>" 0 0 "[]"]
    by (simp add: d1')
  have p3: "\<exists>p. e_progress (enhance new_manager (d3, 0, 0)) = Num p \<and>
      \<bar>p - 7 / 25 * 100\<bar> \<le> 1 / 2 ^ 45"
    using progress_of_download [of new_manager d3 0 0 "[]"]
    by (simp add: d3_def)
  from progress_of_download [of new_manager d2 0 0 "[(d1, 0, 0), (d2, 0, 0)]"]
  obtain ys where ys: "getEnhancedDownloadStats (Resolved [(d1, 0, 0), (d2, 0, 0)]) new_manager =
      Resolved ys"
    and perm: "mset ys = mset (map (enhance new_manager) [(d1, 0, 0), (d2, 0, 0)])"
    by blast
  have "mset (map e_progress ys) = image_mset e_progress (mset ys)"
    by simp
  also have "\<dots> = {#Num 25, Num 0#}"
    by (simp add: perm p1 p2)
  finally have "mset (map e_progress ys) = {#Num 25, Num 0#}" .
  with ys have ex: "\<exists>ys. getEnhancedDownloadStats (Resolved [(d1, 0, 0), (d2, 0, 0)]) new_manager =
      Resolved ys \<and> mset (map e_progress ys) = {#Num 25, Num 0#}"
    by blast
  have "\<not> truthy (Num 0) \<and> e_progress (enhance new_manager (d2, 0, 0)) = Num 0 \<and>
      (0 :: real) < 7 \<and> (7 :: real) \<le> 25 \<and>
      (\<exists>p. e_progress (enhance new_manager (d3, 0, 0)) = Num p \<and>
         \<bar>p - 7 / 25 * 100\<bar> \<le> 1 / 2 ^ 45) \<and>
      (\<exists>ys. getEnhancedDownloadStats (Resolved [(d1, 0, 0), (d2, 0, 0)]) new_manager =
         Resolved ys \<and> mset (map e_progress ys) = {#Num 25, Num 0#})"
    using p2 p3 ex by simp
  then show ?thesis
    unfolding d1_def d2_def d3_def .
qed


section \<open>Byte units\<close>

lemma floor_log1024:
  fixes x :: real
  assumes "0 < x"
  shows "\<lfloor>ln x / ln 1024\<rfloor> = i \<longleftrightarrow> 1024 powr (of_int i) \<le> x \<and> x < 1024 powr (of_int i + 1)"
proof -
  have "ln x / ln 1024 = log 1024 x" by (simp add: log_def)
  then show ?thesis
    using floor_log_eq_powr_iff [of x 1024 i] assms by simp
qed

lemma formatBytes_positive:
  fixes x :: real
  assumes "0 < x"
  shows "formatBytes (Num x) =
           toFixed1_string (Num (x / 1024 powr of_int \<lfloor>ln x / ln 1024\<rfloor>)) @ '' '' @
           sizes_at (Num (of_int \<lfloor>ln x / ln 1024\<rfloor>))"
  using assms by (simp add: formatBytes_def Math_log_def Math_floor_def Math_pow_def Let_def)

lemma formatBytes_negative:
  fixes x :: real
  assumes "x < 0"
  shows "formatBytes (Num x) = ''NaN undefined''"
  using assms
  by (simp add: formatBytes_def Math_log_def Math_floor_def Math_pow_def Let_def
        toFixed1_string_def sizes_at_def)

lemma formatBytes_falsy: "\<not> truthy v \<Longrightarrow> formatBytes v = ''0 B''"
  by (simp add: formatBytes_def)

lemma digit_char_no_space: "d < 10 \<Longrightarrow> digit_char d \<noteq> CHR '' ''"
proof -
  assume "d < 10"
  then consider "d = 0" | "d = 1" | "d = 2" | "d = 3" | "d = 4" | "d = 5" | "d = 6" | "d = 7"
    | "d = 8" | "d = 9" by atomize_elim arith
  then show ?thesis
    by cases (simp_all add: digit_char_def)
qed

lemma show_nat_no_space: "CHR '' '' \<notin> set (show_nat n)"
proof (induction n rule: show_nat.induct)
  case (1 n)
  show ?case
  proof (cases "n < 10")
    case True
    then show ?thesis
      using digit_char_no_space [of n] by (simp add: show_nat.simps [of n])
  next
    case False
    then show ?thesis
      using 1 digit_char_no_space [of "n mod 10"] by (simp add: show_nat.simps [of n])
  qed
qed

lemma show_tenths_no_space: "CHR '' '' \<notin> set (show_tenths n)"
  using digit_char_no_space [of "nat \<bar>n\<bar> mod 10"]
  by (simp add: show_tenths_def show_nat_no_space)

lemma toFixed1_string_no_space: "CHR '' '' \<notin> set (toFixed1_string v)"
  by (cases v) (simp_all add: toFixed1_string_def show_tenths_no_space)

lemma unit_of_append:
  assumes "CHR '' '' \<notin> set a"
  shows "unit_of (a @ '' '' @ u) = u"
proof -
  have "dropWhile (\<lambda>c. c \<noteq> CHR '' '') (a @ CHR '' '' # u) =
          dropWhile (\<lambda>c. c \<noteq> CHR '' '') (CHR '' '' # u)"
    by (rule dropWhile_append2) (use assms in auto)
  then show ?thesis
    by (simp add: unit_of_def)
qed

lemma unit_of_formatBytes:
  fixes x :: real
  assumes "0 < x"
  shows "unit_of (formatBytes (Num x)) = sizes_at (Num (of_int \<lfloor>ln x / ln 1024\<rfloor>))"
  unfolding formatBytes_positive [OF assms]
  by (rule unit_of_append) (rule toFixed1_string_no_space)

lemma sizes_at_int: "sizes_at (Num (of_int i)) \<in> set sizes \<longleftrightarrow> 0 \<le> i \<and> i < 4"
proof (cases "0 \<le> i \<and> i < 4")
  case True
  then consider "i = 0" | "i = 1" | "i = 2" | "i = 3" by linarith
  then show ?thesis
    by cases (simp_all add: sizes_at_def sizes_def)
next
  case False
  then show ?thesis
    by (auto simp: sizes_at_def sizes_def)
qed

lemma sizes_at_negative: "i < 0 \<Longrightarrow> sizes_at (Num (of_int i)) = ''undefined''"
  by (simp add: sizes_at_def)

lemma index_nonneg_iff:
  fixes x :: real
  assumes "0 < x"
  shows "0 \<le> \<lfloor>ln x / ln 1024\<rfloor> \<longleftrightarrow> 1 \<le> x"
proof -
  have pos: "(0 :: real) < ln 1024" by simp
  have "0 \<le> \<lfloor>ln x / ln 1024\<rfloor> \<longleftrightarrow> 0 \<le> ln x / ln 1024" by (simp add: le_floor_iff)
  also have "\<dots> \<longleftrightarrow> 0 \<le> ln x" using pos by (simp add: zero_le_divide_iff)
  also have "\<dots> \<longleftrightarrow> 1 \<le> x" using assms by simp
  finally show ?thesis .
qed

lemma index_below_four_iff:
  fixes x :: real
  assumes "0 < x"
  shows "\<lfloor>ln x / ln 1024\<rfloor> < 4 \<longleftrightarrow> x < 1024 ^ 4"
proof -
  have pos: "(0 :: real) < ln 1024" by simp
  have pw: "ln ((1024 :: real) ^ 4) = real 4 * ln 1024"
    by (rule ln_realpow)
  have "\<lfloor>ln x / ln 1024\<rfloor> < 4 \<longleftrightarrow> ln x / ln 1024 < 4" by (simp add: floor_less_iff)
  also have "\<dots> \<longleftrightarrow> ln x < 4 * ln 1024" using pos by (simp add: pos_divide_less_eq)
  also have "\<dots> \<longleftrightarrow> ln x < ln ((1024 :: real) ^ 4)" by (simp only: pw) simp
  also have "\<dots> \<longleftrightarrow> x < 1024 ^ 4"
    using assms by (subst ln_less_cancel_iff) simp_all
  finally show ?thesis .
qed

lemma index_below_one:
  fixes x :: real
  assumes "0 < x" "x < 1"
  shows "\<lfloor>ln x / ln 1024\<rfloor> < 0"
  using index_nonneg_iff [OF assms(1)] assms(2) by linarith

lemma index_half: "\<lfloor>ln (1 / 2 :: real) / ln 1024\<rfloor> = - 1"
proof -
  have "(1024 :: real) powr (- 1) = 1 / 1024"
    by (simp add: powr_minus_divide)
  then show ?thesis
    by (subst floor_log1024) simp_all
qed

lemma formatBytes_half: "formatBytes (Num (1 / 2)) = ''512 undefined''"
proof -
  have p: "(1024 :: real) powr (- 1) = 1 / 1024"
    by (simp add: powr_minus_divide)
  have "formatBytes (Num (1 / 2)) =
      toFixed1_string (Num ((1 / 2) / 1024 powr of_int (- 1))) @ '' '' @ sizes_at (Num (of_int (- 1)))"
    using formatBytes_positive [of "1 / 2"] by (simp only: index_half)
  also have "\<dots> = ''512 undefined''"
    by (simp add: p toFixed1_string_def show_tenths_def show_nat.simps digit_char_def sizes_at_def)
  finally show ?thesis .
qed

lemma index_1536: "\<lfloor>ln (1536 :: real) / ln 1024\<rfloor> = 1"
  by (subst floor_log1024) simp_all

lemma formatBytes_1536: "formatBytes (Num 1536) = ''1.5 KB''"
proof -
  have "formatBytes (Num 1536) =
      toFixed1_string (Num (1536 / 1024 powr of_int 1)) @ '' '' @ sizes_at (Num (of_int 1))"
    using formatBytes_positive [of 1536] by (simp only: index_1536)
  also have "\<dots> = ''1.5 KB''"
    by (simp add: toFixed1_string_def show_tenths_def show_nat.simps digit_char_def sizes_at_def sizes_def)
  finally show ?thesis .
qed

lemma unit_in_sizes_iff:
  fixes x :: real
  assumes "x \<noteq> 0"
  shows "unit_of (formatBytes (Num x)) \<in> set sizes \<longleftrightarrow> 1 \<le> x \<and> x < 1024 ^ 4"
proof (cases "0 < x")
  case True
  show ?thesis
    unfolding unit_of_formatBytes [OF True] sizes_at_int
      index_nonneg_iff [OF True] index_below_four_iff [OF True] ..
next
  case False
  with assms have neg: "x < 0" by simp
  have "unit_of ''NaN undefined'' = ''undefined''"
    by (simp add: unit_of_def)
  then show ?thesis
    using neg by (simp add: formatBytes_negative sizes_def)
qed

lemma unit_below_one:
  fixes x :: real
  assumes "0 < x" "x < 1"
  shows "unit_of (formatBytes (Num x)) = ''undefined''"
  unfolding unit_of_formatBytes [OF assms(1)]
  by (rule sizes_at_negative) (rule index_below_one [OF assms])

lemma index_jsval:
  fixes x :: real
  assumes "0 < x"
  shows "Math_floor (js_div (Math_log (Num x)) (Math_log (Num 1024))) =
           Num (of_int \<lfloor>ln x / ln 1024\<rfloor>)"
  using assms by (simp add: Math_floor_def Math_log_def)

lemma slow_download_speed:
  "calculateDownloadSpeed 3000
     (onDownloadChanged 1000 True
        \<lparr>dd_id = 1, dd_state = None,
         dd_bytesReceived = Some \<lparr>nd_previous = Num 0, nd_current = Num 1\<rparr>,
         dd_totalBytes = None\<rparr>
        (onDownloadCreated 0 True
           \<lparr>di_id = 1, di_filename = None, di_url = None, di_state = Some ''in_progress'',
            di_bytesReceived = Num 0, di_totalBytes = Num 100,
            di_startTime = ''2024-01-15T10:30:00.000Z''\<rparr>
           new_manager)) 1 = ''512 undefined/s''"
  by (simp add: calculateDownloadSpeed_def onDownloadChanged_def onDownloadCreated_def
        download_or_empty_def apply_delta_def new_manager_def Let_def js_sub_def
        DAList.lookup_update formatBytes_half)

text \<open>
  Claim C10. For an input other than 0, \<^verbatim>\<open>formatBytes\<close> writes one of the units B,
  KB, MB, GB only when the input is in \<open>[1, 1024\<^sup>4)\<close>; a falsy input gives
  \<^verbatim>\<open>0 B\<close>; for a positive input below 1 the index is negative, the lookup in
  \<^verbatim>\<open>sizes\<close> reads \<^verbatim>\<open>undefined\<close> and the unit written is the text
  \<^verbatim>\<open>undefined\<close>. At 0.5 the index is -1 and the result is \<^verbatim>\<open>512 undefined\<close>,
  which \<^verbatim>\<open>calculateDownloadSpeed\<close> returns (followed by \<^verbatim>\<open>/s\<close>) for a download
  that received one byte in two seconds. Nothing is stated about which inputs of the
  interval get a unit: just below \<open>1024\<^sup>4\<close> the quotient of the two logarithms, as
  doubles, can round up to 4.
\<close>

theorem formatBytes_unit_outside_range:
  "(\<forall>x. x \<noteq> 0 \<and> unit_of (formatBytes (Num x)) \<in> set sizes \<longrightarrow> 1 \<le> x \<and> x < 1024 ^ 4) \<and>
   (\<forall>v. \<not> truthy v \<longrightarrow> formatBytes v = ''0 B'') \<and>
   (\<forall>x. 0 < x \<and> x < 1 \<longrightarrow>
      (\<exists>i. i < 0 \<and> Math_floor (js_div (Math_log (Num x)) (Math_log (Num 1024))) = Num (of_int i) \<and>
           sizes_at (Num (of_int i)) = ''undefined'') \<and>
      unit_of (formatBytes (Num x)) = ''undefined'') \<and>
   Math_floor (js_div (Math_log (Num (1 / 2))) (Math_log (Num 1024))) = Num (- 1) \<and>
   formatBytes (Num (1 / 2)) = ''512 undefined'' \<and>
   calculateDownloadSpeed 3000
     (onDownloadChanged 1000 True
        \<lparr>dd_id = 1, dd_state = None,
         dd_bytesReceived = Some \<lparr>nd_previous = Num 0, nd_current = Num 1\<rparr>,
         dd_totalBytes = None\<rparr>
        (onDownloadCreated 0 True
           \<lparr>di_id = 1, di_filename = None, di_url = None, di_state = Some ''in_progress'',
            di_bytesReceived = Num 0, di_totalBytes = Num 100,
            di_startTime = ''2024-01-15T10:30:00.000Z''\<rparr>
           new_manager)) 1 = ''512 undefined/s''"
proof (intro conjI allI impI)
  fix x :: real
  assume "x \<noteq> 0 \<and> unit_of (formatBytes (Num x)) \<in> set sizes"
  then show "1 \<le> x"
    using unit_in_sizes_iff [of x] by blast
next
  fix x :: real
  assume "x \<noteq> 0 \<and> unit_of (formatBytes (Num x)) \<in> set sizes"
  then show "x < 1024 ^ 4"
    using unit_in_sizes_iff [of x] by blast
next
  fix v
  assume "\<not> truthy v"
  then show "formatBytes v = ''0 B''" by (rule formatBytes_falsy)
next
  fix x :: real
  assume x: "0 < x \<and> x < 1"
  then have "\<lfloor>ln x / ln 1024\<rfloor> < 0" by (intro index_below_one) simp_all
  moreover have "Math_floor (js_div (Math_log (Num x)) (Math_log (Num 1024))) =
      Num (of_int \<lfloor>ln x / ln 1024\<rfloor>)"
    using x by (simp add: index_jsval)
  ultimately show "\<exists>i. i < 0 \<and>
      Math_floor (js_div (Math_log (Num x)) (Math_log (Num 1024))) = Num (of_int i) \<and>
      sizes_at (Num (of_int i)) = ''undefined''"
    using sizes_at_negative by blast
next
  fix x :: real
  assume "0 < x \<and> x < 1"
  then show "unit_of (formatBytes (Num x)) = ''undefined''"
    by (simp add: unit_below_one)
next
  show "Math_floor (js_div (Math_log (Num (1 / 2))) (Math_log (Num 1024))) = Num (- 1)"
    using index_jsval [of "1 / 2"] by (simp only: index_half) simp
next
  show "formatBytes (Num (1 / 2)) = ''512 undefined''"
    by (rule formatBytes_half)
next
  show "calculateDownloadSpeed 3000
     (onDownloadChanged 1000 True
        \<lparr>dd_id = 1, dd_state = None,
         dd_bytesReceived = Some \<lparr>nd_previous = Num 0, nd_current = Num 1\<rparr>,
         dd_totalBytes = None\<rparr>
        (onDownloadCreated 0 True
           \<lparr>di_id = 1, di_filename = None, di_url = None, di_state = Some ''in_progress'',
            di_bytesReceived = Num 0, di_totalBytes = Num 100,
            di_startTime = ''2024-01-15T10:30:00.000Z''\<rparr>
           new_manager)) 1 = ''512 undefined/s''"
    by (rule slow_download_speed)
qed

theorem formatBytes_unit_outside_range_witness:
  "(1536 :: real) \<noteq> 0 \<and> unit_of (formatBytes (Num 1536)) \<in> set sizes \<and>
   (1 :: real) \<le> 1536 \<and> (1536 :: real) < 1024 ^ 4 \<and>
   \<not> truthy NaN \<and> formatBytes NaN = ''0 B'' \<and>
   (0 :: real) < 1 / 4 \<and> (1 / 4 :: real) < 1 \<and> unit_of (formatBytes (Num (1 / 4))) = ''undefined''"
proof -
  have u: "unit_of (formatBytes (Num 1536)) \<in> set sizes"
    by (simp add: formatBytes_1536 unit_of_def sizes_def)
  have "\<forall>x. x \<noteq> 0 \<and> unit_of (formatBytes (Num x)) \<in> set sizes \<longrightarrow> 1 \<le> x \<and> x < 1024 ^ 4"
    using formatBytes_unit_outside_range by (rule conjunct1)
  then have "(1536 :: real) \<noteq> 0 \<and> unit_of (formatBytes (Num 1536)) \<in> set sizes \<longrightarrow>
      (1 :: real) \<le> 1536 \<and> (1536 :: real) < 1024 ^ 4"
    by (rule spec)
  with u have "(1 :: real) \<le> 1536 \<and> (1536 :: real) < 1024 ^ 4"
    by simp
  moreover have "formatBytes NaN = ''0 B''"
    using formatBytes_unit_outside_range by simp
  moreover have "unit_of (formatBytes (Num (1 / 4))) = ''undefined''"
    using formatBytes_unit_outside_range by simp
  ultimately show ?thesis
    using u by simp
qed

section \<open>Speed and time remaining\<close>

lemma speed_match_example: "speed_match ''1.5 KB/s'' = Some (''1.5'', ''KB'')"
  by code_simp

lemma speed_match_undefined: "speed_match ''512 undefined/s'' = Some (''512'', ''undefined'')"
  by code_simp

lemma parseFloat_example: "parseFloat ''1.5'' = 3 / 2"
  by code_simp

lemma toLowerCase_example: "toLowerCase ''KB'' = ''kb''"
  by code_simp

lemma formatTime_example: "formatTime (Num 10) = ''10s''"
  by (simp add: formatTime_def Math_round_string_def Math_round_def show_int_def show_nat.simps digit_char_def)

lemma speed_text_not_NA: "t @ ''/s'' \<noteq> ''N/A''"
proof
  assume "t @ ''/s'' = ''N/A''"
  then have "last (t @ ''/s'') = last ''N/A''" by (simp only:)
  then show False by simp
qed

lemma calculateDownloadSpeed_NA_iff:
  "calculateDownloadSpeed now s i = ''N/A'' \<longleftrightarrow>
     (case DAList.lookup (downloadStats s) i of
        None \<Rightarrow> True
      | Some r \<Rightarrow> \<not> truthy (d_lastUpdated r) \<or> \<not> truthy (d_bytesReceived r) \<or>
                  js_lt (js_div (js_sub (Num now) (d_lastUpdated r)) (Num 1000)) (Num 1))"
  by (auto simp: calculateDownloadSpeed_def Let_def speed_text_not_NA split: option.splits)

lemma calculateDownloadSpeed_value:
  "DAList.lookup (downloadStats s) i = Some r \<Longrightarrow> calculateDownloadSpeed now s i \<noteq> ''N/A'' \<Longrightarrow>
   calculateDownloadSpeed now s i =
     formatBytes (js_div (d_bytesReceived r)
       (js_div (js_sub (Num now) (d_lastUpdated r)) (Num 1000))) @ ''/s''"
  by (simp add: calculateDownloadSpeed_def Let_def split: if_splits)

lemma calculateDownloadSpeed_numbers:
  "DAList.lookup (downloadStats s) i = Some r \<Longrightarrow> d_lastUpdated r = Num t \<Longrightarrow>
   d_bytesReceived r = Num b \<Longrightarrow> t \<noteq> 0 \<Longrightarrow> b \<noteq> 0 \<Longrightarrow>
   calculateDownloadSpeed now s i =
     (if (now - t) / 1000 < 1 then ''N/A''
      else formatBytes (Num (b / ((now - t) / 1000))) @ ''/s'')"
  by (auto simp: calculateDownloadSpeed_def Let_def js_sub_def)

lemma calculateTimeRemaining_NA:
  "(case DAList.lookup (downloadStats s) i of
      None \<Rightarrow> True
    | Some r \<Rightarrow> d_state r \<noteq> Some ''in_progress'' \<or> \<not> truthy (d_totalBytes r) \<or>
                calculateDownloadSpeed now s i = ''N/A'') \<Longrightarrow>
   calculateTimeRemaining now s i = ''N/A''"
  by (auto simp: calculateTimeRemaining_def Let_def split: option.splits)

text \<open>
  Claim C6, as stated, fails: a download that was created with no bytes received and
  then changed is tracked, has a \<^verbatim>\<open>lastUpdated\<close> timestamp, and is asked about 5
  seconds later, yet its speed is \<^verbatim>\<open>N/A\<close>.
\<close>

theorem speed_unavailable_without_bytes:
  "DAList.lookup (downloadStats
      (onDownloadChanged 1000 True
        \<lparr>dd_id = 1, dd_state = Some \<lparr>sd_previous = None, sd_current = Some ''in_progress''\<rparr>,
         dd_bytesReceived = None, dd_totalBytes = None\<rparr>
        (onDownloadCreated 0 True
           \<lparr>di_id = 1, di_filename = None, di_url = None, di_state = Some ''in_progress'',
            di_bytesReceived = Num 0, di_totalBytes = Num 100,
            di_startTime = ''2024-01-15T10:30:00.000Z''\<rparr>
           new_manager))) 1 =
     Some \<lparr>d_id = Some 1, d_filename = None, d_url = None, d_state = Some ''in_progress'',
           d_bytesReceived = Num 0, d_totalBytes = Num 100, d_createdAt = Num 0,
           d_lastUpdated = Num 1000\<rparr> \<and>
   truthy (Num 1000) \<and>
   \<not> js_lt (js_div (js_sub (Num 6000) (Num 1000)) (Num 1000)) (Num 1) \<and>
   calculateDownloadSpeed 6000
      (onDownloadChanged 1000 True
        \<lparr>dd_id = 1, dd_state = Some \<lparr>sd_previous = None, sd_current = Some ''in_progress''\<rparr>,
         dd_bytesReceived = None, dd_totalBytes = None\<rparr>
        (onDownloadCreated 0 True
           \<lparr>di_id = 1, di_filename = None, di_url = None, di_state = Some ''in_progress'',
            di_bytesReceived = Num 0, di_totalBytes = Num 100,
            di_startTime = ''2024-01-15T10:30:00.000Z''\<rparr>
           new_manager)) 1 = ''N/A''"
  by (simp add: calculateDownloadSpeed_def onDownloadChanged_def onDownloadCreated_def
        download_or_empty_def apply_delta_def new_manager_def Let_def js_sub_def
        DAList.lookup_update)

text \<open>
  Claim C6, amended. \<^verbatim>\<open>calculateDownloadSpeed\<close> returns \<^verbatim>\<open>N/A\<close> exactly when the
  download is not tracked, its \<^verbatim>\<open>lastUpdated\<close> is falsy, its \<^verbatim>\<open>bytesReceived\<close> is
  falsy (zero or missing), or less than one second has passed since \<^verbatim>\<open>lastUpdated\<close>;
  otherwise it returns \<^verbatim>\<open>bytesReceived\<close> divided by the seconds passed, formatted by
  \<^verbatim>\<open>formatBytes\<close> and followed by \<^verbatim>\<open>/s\<close>. \<^verbatim>\<open>calculateTimeRemaining\<close> returns
  \<^verbatim>\<open>N/A\<close> whenever the download is not tracked, its state is not
  \<^verbatim>\<open>in_progress\<close>, its \<^verbatim>\<open>totalBytes\<close> is falsy, or the speed is \<^verbatim>\<open>N/A\<close>.
\<close>

theorem speed_and_time_remaining_unavailable:
  "(calculateDownloadSpeed now s i = ''N/A'' \<longleftrightarrow>
      (case DAList.lookup (downloadStats s) i of
         None \<Rightarrow> True
       | Some r \<Rightarrow> \<not> truthy (d_lastUpdated r) \<or> \<not> truthy (d_bytesReceived r) \<or>
                   js_lt (js_div (js_sub (Num now) (d_lastUpdated r)) (Num 1000)) (Num 1))) \<and>
   (\<forall>r. DAList.lookup (downloadStats s) i = Some r \<and> calculateDownloadSpeed now s i \<noteq> ''N/A'' \<longrightarrow>
      calculateDownloadSpeed now s i =
        formatBytes (js_div (d_bytesReceived r)
          (js_div (js_sub (Num now) (d_lastUpdated r)) (Num 1000))) @ ''/s'') \<and>
   (\<forall>r t b. DAList.lookup (downloadStats s) i = Some r \<and> d_lastUpdated r = Num t \<and>
        d_bytesReceived r = Num b \<and> t \<noteq> 0 \<and> b \<noteq> 0 \<longrightarrow>
      calculateDownloadSpeed now s i =
        (if (now - t) / 1000 < 1 then ''N/A''
         else formatBytes (Num (b / ((now - t) / 1000))) @ ''/s'')) \<and>
   ((case DAList.lookup (downloadStats s) i of
       None \<Rightarrow> True
     | Some r \<Rightarrow> d_state r \<noteq> Some ''in_progress'' \<or> \<not> truthy (d_totalBytes r) \<or>
                 calculateDownloadSpeed now s i = ''N/A'') \<longrightarrow>
    calculateTimeRemaining now s i = ''N/A'')"
proof (intro conjI allI impI)
  show "calculateDownloadSpeed now s i = ''N/A'' \<longleftrightarrow>
      (case DAList.lookup (downloadStats s) i of
         None \<Rightarrow> True
       | Some r \<Rightarrow> \<not> truthy (d_lastUpdated r) \<or> \<not> truthy (d_bytesReceived r) \<or>
                   js_lt (js_div (js_sub (Num now) (d_lastUpdated r)) (Num 1000)) (Num 1))"
    by (rule calculateDownloadSpeed_NA_iff)
next
  fix r
  assume "DAList.lookup (downloadStats s) i = Some r \<and> calculateDownloadSpeed now s i \<noteq> ''N/A''"
  then show "calculateDownloadSpeed now s i =
        formatBytes (js_div (d_bytesReceived r)
          (js_div (js_sub (Num now) (d_lastUpdated r)) (Num 1000))) @ ''/s''"
    using calculateDownloadSpeed_value [of s i r now] by blast
next
  fix r t b
  assume "DAList.lookup (downloadStats s) i = Some r \<and> d_lastUpdated r = Num t \<and>
        d_bytesReceived r = Num b \<and> t \<noteq> 0 \<and> b \<noteq> 0"
  then show "calculateDownloadSpeed now s i =
        (if (now - t) / 1000 < 1 then ''N/A''
         else formatBytes (Num (b / ((now - t) / 1000))) @ ''/s'')"
    using calculateDownloadSpeed_numbers [of s i r t b now] by blast
next
  assume "case DAList.lookup (downloadStats s) i of
       None \<Rightarrow> True
     | Some r \<Rightarrow> d_state r \<noteq> Some ''in_progress'' \<or> \<not> truthy (d_totalBytes r) \<or>
                 calculateDownloadSpeed now s i = ''N/A''"
  then show "calculateTimeRemaining now s i = ''N/A''"
    by (rule calculateTimeRemaining_NA)
qed

theorem speed_and_time_remaining_unavailable_witness:
  "calculateDownloadSpeed 3000
     (new_manager\<lparr>downloadStats := DAList.update 1
        \<lparr>d_id = Some 1, d_filename = None, d_url = None, d_state = Some ''complete'',
         d_bytesReceived = Num 3072, d_totalBytes = Num 3072, d_createdAt = Num 0,
         d_lastUpdated = Num 1000\<rparr> DAList.empty\<rparr>) 1 = ''1.5 KB/s'' \<and>
   calculateTimeRemaining 3000
     (new_manager\<lparr>downloadStats := DAList.update 1
        \<lparr>d_id = Some 1, d_filename = None, d_url = None, d_state = Some ''complete'',
         d_bytesReceived = Num 3072, d_totalBytes = Num 3072, d_createdAt = Num 0,
         d_lastUpdated = Num 1000\<rparr> DAList.empty\<rparr>) 1 = ''N/A''"
  using speed_and_time_remaining_unavailable [of 3000
     "new_manager\<lparr>downloadStats := DAList.update 1
        \<lparr>d_id = Some 1, d_filename = None, d_url = None, d_state = Some ''complete'',
         d_bytesReceived = Num 3072, d_totalBytes = Num 3072, d_createdAt = Num 0,
         d_lastUpdated = Num 1000\<rparr> DAList.empty\<rparr>" 1]
  by (simp add: formatBytes_1536)

lemma time_remaining_example:
  "calculateTimeRemaining 3000
     (new_manager\<lparr>downloadStats := DAList.update 1
        \<lparr>d_id = Some 1, d_filename = None, d_url = None, d_state = Some ''in_progress'',
         d_bytesReceived = Num 3072, d_totalBytes = Num 18432, d_createdAt = Num 0,
         d_lastUpdated = Num 1000\<rparr> DAList.empty\<rparr>) 1 = ''10s''"
proof -
  have speed: "calculateDownloadSpeed 3000
     (new_manager\<lparr>downloadStats := DAList.update 1
        \<lparr>d_id = Some 1, d_filename = None, d_url = None, d_state = Some ''in_progress'',
         d_bytesReceived = Num 3072, d_totalBytes = Num 18432, d_createdAt = Num 0,
         d_lastUpdated = Num 1000\<rparr> DAList.empty\<rparr>) 1 = ''1.5 KB/s''"
    by (simp add: calculateDownloadSpeed_def Let_def js_sub_def formatBytes_1536)
  show ?thesis
    by (simp add: calculateTimeRemaining_def speed Let_def js_sub_def speed_match_example
          parseFloat_example toLowerCase_example formatTime_example)
qed

end
